theory Spec2Isabelle
  imports Main
begin

section \<open>JavaScript strings\<close>

text \<open>
  A JavaScript string is modelled as a \<^typ>\<open>string\<close>: a list of code units, restricted to
  the code units below 256 (ASCII and Latin-1). \<open>string | undefined\<close> is
  \<^typ>\<open>string option\<close>. The string methods used by the source are written out below.
\<close>

definition isWhiteSpace :: "char \<Rightarrow> bool" where
  \<comment> \<open>the characters of \<open>\s\<close> and of \<open>trimEnd\<close> (WhiteSpace and LineTerminator) below 256\<close>
  "isWhiteSpace c =
     (let n = (of_char c :: nat)
      in n = 9 \<or> n = 10 \<or> n = 11 \<or> n = 12 \<or> n = 13 \<or> n = 32 \<or> n = 160)"

definition isDigit :: "char \<Rightarrow> bool" where
  "isDigit c = (let n = (of_char c :: nat) in 48 \<le> n \<and> n \<le> 57)"

definition toLowerChar :: "char \<Rightarrow> char" where
  "toLowerChar c =
     (let n = (of_char c :: nat)
      in if (65 \<le> n \<and> n \<le> 90) \<or> (192 \<le> n \<and> n \<le> 222 \<and> n \<noteq> 215)
         then char_of (n + 32) else c)"

definition toLowerCase :: "string \<Rightarrow> string" where
  "toLowerCase s = map toLowerChar s"

definition startsWith :: "string \<Rightarrow> string \<Rightarrow> bool" where
  "startsWith s p = (take (length p) s = p)"

definition endsWith :: "string \<Rightarrow> string \<Rightarrow> bool" where
  "endsWith s p = (length p \<le> length s \<and> drop (length s - length p) s = p)"

fun includesStr :: "string \<Rightarrow> string \<Rightarrow> bool" where
  "includesStr [] p = (p = [])"
| "includesStr (c # s) p = (startsWith (c # s) p \<or> includesStr s p)"

definition trimEnd :: "string \<Rightarrow> string" where
  "trimEnd s = rev (dropWhile isWhiteSpace (rev s))"

definition substring :: "string \<Rightarrow> nat \<Rightarrow> nat \<Rightarrow> string" where
  \<comment> \<open>\<open>s.substring(a, b)\<close>; the smaller argument is the start, as in JavaScript\<close>
  "substring s a b = take (max a b - min a b) (drop (min a b) s)"

definition substringFrom :: "string \<Rightarrow> nat \<Rightarrow> string" where
  \<comment> \<open>\<open>s.substring(a)\<close>\<close>
  "substringFrom s a = drop a s"

fun splitLines :: "string \<Rightarrow> string list" where
  \<comment> \<open>\<open>s.split('\n')\<close>: always at least one line\<close>
  "splitLines [] = [[]]"
| "splitLines (c # s) =
     (if c = CHR 0x0A then [] # splitLines s
      else (case splitLines s of l # ls \<Rightarrow> (c # l) # ls | [] \<Rightarrow> [[c]]))"

fun joinLines :: "string list \<Rightarrow> string" where
  \<comment> \<open>\<open>lines.join('\n')\<close>\<close>
  "joinLines [] = []"
| "joinLines [l] = l"
| "joinLines (l # ls) = l @ CHR 0x0A # joinLines ls"

section \<open>Regular expressions\<close>

text \<open>
  The regular expressions of the source use literals, the classes \<open>\s\<close>, \<open>\d\<close>,
  \<open>[...]\<close> and \<open>[^...]\<close>, greedy \<open>*\<close>, \<open>+\<close> and \<open>?\<close> on a single character or class,
  alternation, capture groups and the anchors \<open>^\<close> and \<open>$\<close> (no flag \<open>m\<close>, \<open>i\<close> or \<open>s\<close>
  anywhere). They are embedded as abstract syntax, and matched by a backtracking matcher that
  returns the ways a pattern can match at a position in the order in which JavaScript tries
  them, so that the first one is the match JavaScript reports.
\<close>

datatype cls = Space | Digit | Among string | Except string

fun inCls :: "cls \<Rightarrow> char \<Rightarrow> bool" where
  "inCls Space c = isWhiteSpace c"
| "inCls Digit c = isDigit c"
| "inCls (Among cs) c = (c \<in> set cs)"
| "inCls (Except cs) c = (c \<notin> set cs)"

datatype regex =
    Eps
  | Lit char
  | Cls cls
  | Seq regex regex
  | Alt regex regex
  | Star cls
  | Plus cls
  | Opt regex
  | Group nat regex
  | Bol
  | Eol

fun lits :: "string \<Rightarrow> regex" where
  \<comment> \<open>a string matched literally: what a pattern source whose special characters are all
      escaped by a backslash denotes\<close>
  "lits [] = Eps"
| "lits (c # cs) = Seq (Lit c) (lits cs)"

text \<open>
  A matcher state: whether the position is the start of the input, the input left, and the
  captures so far (the newest first).
\<close>

type_synonym mstate = "bool \<times> string \<times> (nat \<times> string) list"

fun rmatch :: "regex \<Rightarrow> mstate \<Rightarrow> mstate list" where
  "rmatch Eps st = [st]"
| "rmatch (Lit c) (b, s, cs) =
     (case s of [] \<Rightarrow> [] | x # xs \<Rightarrow> if x = c then [(False, xs, cs)] else [])"
| "rmatch (Cls k) (b, s, cs) =
     (case s of [] \<Rightarrow> [] | x # xs \<Rightarrow> if inCls k x then [(False, xs, cs)] else [])"
| "rmatch (Seq r1 r2) st = concat (map (rmatch r2) (rmatch r1 st))"
| "rmatch (Alt r1 r2) st = rmatch r1 st @ rmatch r2 st"
| "rmatch (Star k) (b, s, cs) =
     map (\<lambda>i. (b \<and> i = 0, drop i s, cs)) (rev [0 ..< Suc (length (takeWhile (inCls k) s))])"
| "rmatch (Plus k) (b, s, cs) =
     map (\<lambda>i. (False, drop i s, cs)) (rev [1 ..< Suc (length (takeWhile (inCls k) s))])"
| "rmatch (Opt r) st = rmatch r st @ [st]"
| "rmatch (Group n r) (b, s, cs) =
     map (\<lambda>(b', s', cs'). (b', s', (n, take (length s - length s') s) # cs'))
       (rmatch r (b, s, cs))"
| "rmatch Bol (b, s, cs) = (if b then [(b, s, cs)] else [])"
| "rmatch Eol (b, s, cs) = (if s = [] then [(b, s, cs)] else [])"

text \<open>
  The equations for sequences, repetitions and groups are unfolded by hand in the proofs.
\<close>

declare rmatch.simps(4,6,7,9) [simp del]

fun ngroups :: "regex \<Rightarrow> nat" where
  "ngroups (Seq r1 r2) = ngroups r1 + ngroups r2"
| "ngroups (Alt r1 r2) = ngroups r1 + ngroups r2"
| "ngroups (Opt r) = ngroups r"
| "ngroups (Group n r) = Suc (ngroups r)"
| "ngroups r = 0"

record rxmatch =
  index :: nat
  matched :: string
  captures :: "(nat \<times> string) list"

fun execFrom :: "regex \<Rightarrow> nat \<Rightarrow> string \<Rightarrow> rxmatch option" where
  \<comment> \<open>the leftmost match: \<open>i\<close> characters of the input are behind, \<open>s\<close> is ahead\<close>
  "execFrom r i s =
     (case rmatch r (i = 0, s, []) of
        (b, s', cs) # _ \<Rightarrow>
          Some \<lparr>index = i, matched = take (length s - length s') s, captures = cs\<rparr>
      | [] \<Rightarrow> (case s of [] \<Rightarrow> None | _ # t \<Rightarrow> execFrom r (Suc i) t))"

declare execFrom.simps [simp del]

definition exec :: "regex \<Rightarrow> string \<Rightarrow> rxmatch option" where
  \<comment> \<open>\<open>regex.exec(s)\<close> with \<open>lastIndex = 0\<close>\<close>
  "exec r s = execFrom r 0 s"

definition test :: "regex \<Rightarrow> string \<Rightarrow> bool" where
  "test r s = (exec r s \<noteq> None)"

definition capture :: "(nat \<times> string) list \<Rightarrow> nat \<Rightarrow> string" where
  "capture cs n = (case map_of cs n of Some c \<Rightarrow> c | None \<Rightarrow> [])"

definition digitVal :: "char \<Rightarrow> nat" where
  "digitVal c = of_char c - 48"

fun getSubstitution ::
  "string \<Rightarrow> string \<Rightarrow> string \<Rightarrow> (nat \<times> string) list \<Rightarrow> nat \<Rightarrow> string \<Rightarrow> string" where
  \<comment> \<open>GetSubstitution of ECMAScript, without named captures: the expansion of \<open>$$\<close>,
      \<open>$&\<close>, \<open>$`\<close>, \<open>$'\<close>, \<open>$n\<close> and \<open>$nn\<close> in a replacement string\<close>
  "getSubstitution m pre post cs k [] = []"
| "getSubstitution m pre post cs k [c] = [c]"
| "getSubstitution m pre post cs k (c # d # t) =
     (if c \<noteq> CHR ''$'' then c # getSubstitution m pre post cs k (d # t)
      else if d = CHR ''$'' then CHR ''$'' # getSubstitution m pre post cs k t
      else if d = CHR ''&'' then m @ getSubstitution m pre post cs k t
      else if d = CHR 0x60 then pre @ getSubstitution m pre post cs k t
      else if d = CHR 0x27 then post @ getSubstitution m pre post cs k t
      else if isDigit d then
        (case t of
           e # u \<Rightarrow>
             if isDigit e \<and> 1 \<le> 10 * digitVal d + digitVal e \<and> 10 * digitVal d + digitVal e \<le> k
             then capture cs (10 * digitVal d + digitVal e) @ getSubstitution m pre post cs k u
             else if isDigit e \<and> 10 * digitVal d + digitVal e = 0
             then c # d # e # getSubstitution m pre post cs k u
             else if 1 \<le> digitVal d \<and> digitVal d \<le> k
             then capture cs (digitVal d) @ getSubstitution m pre post cs k t
             else c # d # getSubstitution m pre post cs k t
         | [] \<Rightarrow>
             if 1 \<le> digitVal d \<and> digitVal d \<le> k then capture cs (digitVal d)
             else [c, d])
      else c # getSubstitution m pre post cs k (d # t))"

definition replace :: "regex \<Rightarrow> string \<Rightarrow> string \<Rightarrow> string" where
  \<comment> \<open>\<open>s.replace(regex, template)\<close> for a regex without the flag \<open>g\<close>\<close>
  "replace r s template =
     (case exec r s of
        None \<Rightarrow> s
      | Some m \<Rightarrow>
          take (index m) s
          @ getSubstitution (matched m) (take (index m) s)
              (drop (index m + length (matched m)) s) (captures m) (ngroups r) template
          @ drop (index m + length (matched m)) s)"

section \<open>VersionUtils\<close>

definition validVersionPattern :: regex where
  \<comment> \<open>\<open>/^[\^~>=<]?\d|^\d|\*|latest/\<close>\<close>
  "validVersionPattern =
     Alt (Seq Bol (Seq (Opt (Cls (Among ''^~>=<''))) (Cls Digit)))
      (Alt (Seq Bol (Cls Digit))
        (Alt (Lit CHR ''*'') (lits ''latest'')))"

fun isUnknownVersion :: "string option \<Rightarrow> bool" where
  "isUnknownVersion None = True"
| "isUnknownVersion (Some version) =
     (if version = [] then True
      else let lower = toLowerCase version in
        if lower = ''unknown'' \<or> includesStr lower ''unknown'' then True
        else if includesStr lower ''not available'' then True
        else if lower = ''pending'' then True
        else if lower = ''manualreviewrequired'' then True
        else \<not> test validVersionPattern lower)"

fun isRemoveVersion :: "string option \<Rightarrow> bool" where
  "isRemoveVersion None = False"
| "isRemoveVersion (Some version) =
     (if version = [] then False
      else let lower = toLowerCase version in
        lower = ''remove'' \<or> lower = ''remove or replace'' \<or> version = ''REMOVE'')"

definition formatVersion :: "string \<Rightarrow> string" where
  "formatVersion version =
     (if version = [] then version
      else if startsWith version ''^'' \<or> startsWith version ''~'' \<or> startsWith version ''>=''
            \<or> startsWith version ''>'' \<or> startsWith version ''<='' \<or> startsWith version ''<''
            \<or> includesStr version '' '' \<or> includesStr version ''||''
      then version
      else ''^'' @ version)"

section \<open>PackageJsonService.getChanges\<close>

datatype dep_type = dependency | devDependency

text \<open>
  The parsed manifest: each section is absent or an object whose own properties are the
  declared version strings. \<open>section[pkg]\<close> reads a property through the prototype chain:
  the own property when the section has one, otherwise the member of \<open>Object.prototype\<close>
  of that name, otherwise \<open>undefined\<close>. An inherited member is a function (for
  \<open>__proto__\<close> the prototype object itself): it is truthy, and it is identical to no
  string. The \<open>from\<close> of a Change is declared a string and holds whatever value was read,
  so the type of a Change is parameterised by the type of its from-version. The solution's
  sections are association lists in the iteration order of \<open>Object.entries\<close>.
\<close>

datatype jsvalue =
    Str string
  | Inherited string

record 'v change =
  package :: string
  from_version :: 'v
  to_version :: string
  dtype :: dep_type

record manifest =
  dependencies :: "(string \<rightharpoonup> string) option"
  devDependencies :: "(string \<rightharpoonup> string) option"

record solution =
  sol_dependencies :: "(string \<times> string) list"
  sol_devDependencies :: "(string \<times> string) list"

definition objectPrototypeKeys :: "string list" where
  \<comment> \<open>the property names of \<open>Object.prototype\<close>\<close>
  "objectPrototypeKeys =
     [''constructor'', ''__defineGetter__'', ''__defineSetter__'', ''hasOwnProperty'',
      ''__lookupGetter__'', ''__lookupSetter__'', ''isPrototypeOf'', ''propertyIsEnumerable'',
      ''toString'', ''valueOf'', ''__proto__'', ''toLocaleString'']"

definition getProperty :: "(string \<rightharpoonup> string) \<Rightarrow> string \<Rightarrow> jsvalue option" where
  \<comment> \<open>\<open>obj[key]\<close> on an object parsed from JSON: the own property, else the member
      inherited from \<open>Object.prototype\<close>, else \<open>undefined\<close>\<close>
  "getProperty obj key =
     (case obj key of
        Some s \<Rightarrow> Some (Str s)
      | None \<Rightarrow> if key \<in> set objectPrototypeKeys then Some (Inherited key) else None)"

fun truthy :: "jsvalue \<Rightarrow> bool" where
  "truthy (Str s) = (s \<noteq> [])"
| "truthy (Inherited key) = True"

fun sectionLoop ::
  "dep_type \<Rightarrow> (string \<rightharpoonup> string) \<Rightarrow> (string \<times> string) list \<Rightarrow> jsvalue change list
     \<Rightarrow> jsvalue change list" where
  \<comment> \<open>the \<open>for (const [pkg, version] of Object.entries(...))\<close> loop of one section\<close>
  "sectionLoop ty cur [] changes = changes"
| "sectionLoop ty cur ((pkg, versionStr) # rest) changes =
     (if isUnknownVersion (Some versionStr) \<or> isRemoveVersion (Some versionStr)
      then sectionLoop ty cur rest changes
      else (case getProperty cur pkg of
              None \<Rightarrow> sectionLoop ty cur rest changes
            | Some current \<Rightarrow>
                if truthy current \<and> current \<noteq> Str versionStr
                then sectionLoop ty cur rest
                       (changes @ [\<lparr>package = pkg, from_version = current,
                                    to_version = formatVersion versionStr, dtype = ty\<rparr>])
                else sectionLoop ty cur rest changes))"

definition getChanges :: "manifest \<Rightarrow> solution \<Rightarrow> jsvalue change list" where
  "getChanges original sol =
     (let changes = [];
          changes = (case dependencies original of
                       Some deps \<Rightarrow> sectionLoop dependency deps (sol_dependencies sol) changes
                     | None \<Rightarrow> changes);
          changes = (case devDependencies original of
                       Some deps \<Rightarrow> sectionLoop devDependency deps (sol_devDependencies sol) changes
                     | None \<Rightarrow> changes)
      in changes)"

declare isUnknownVersion.simps [simp del]
declare isRemoveVersion.simps [simp del]

subsection \<open>The change list, described declaratively\<close>

definition actionable :: "string \<Rightarrow> bool" where
  \<comment> \<open>a proposed version that classifies as neither unknown nor removal-sentinel\<close>
  "actionable v = (\<not> isUnknownVersion (Some v) \<and> \<not> isRemoveVersion (Some v))"

definition pushed :: "(string \<rightharpoonup> string) \<Rightarrow> string \<times> string \<Rightarrow> bool" where
  \<comment> \<open>the entries for which the loop pushes a Change: the value read is truthy and is not
      the proposed raw string\<close>
  "pushed cur e =
     (actionable (snd e) \<and>
      (case getProperty cur (fst e) of Some v \<Rightarrow> truthy v \<and> v \<noteq> Str (snd e) | None \<Rightarrow> False))"

definition pushedChange :: "dep_type \<Rightarrow> (string \<rightharpoonup> string) \<Rightarrow> string \<times> string \<Rightarrow> jsvalue change" where
  \<comment> \<open>the Change pushed for a solution entry: from the value read, to the formatted version\<close>
  "pushedChange ty cur e =
     \<lparr>package = fst e,
      from_version = (case getProperty cur (fst e) of Some v \<Rightarrow> v | None \<Rightarrow> Str []),
      to_version = formatVersion (snd e), dtype = ty\<rparr>"

definition changeFor :: "dep_type \<Rightarrow> (string \<rightharpoonup> string) \<Rightarrow> string \<times> string \<Rightarrow> jsvalue change" where
  \<comment> \<open>the Change for a declared package: from the declared string, to the formatted one\<close>
  "changeFor ty cur e =
     \<lparr>package = fst e, from_version = Str (case cur (fst e) of Some d \<Rightarrow> d | None \<Rightarrow> []),
      to_version = formatVersion (snd e), dtype = ty\<rparr>"

definition emitted :: "(string \<rightharpoonup> string) \<Rightarrow> string \<times> string \<Rightarrow> bool" where
  \<comment> \<open>the entries that give a Change: declared with a non-empty string that differs from the
      proposed raw string\<close>
  "emitted cur e =
     (actionable (snd e) \<and>
      (case cur (fst e) of Some d \<Rightarrow> d \<noteq> [] \<and> d \<noteq> snd e | None \<Rightarrow> False))"

definition emitted_spec :: "(string \<rightharpoonup> string) \<Rightarrow> string \<times> string \<Rightarrow> bool" where
  \<comment> \<open>the specification's wording: declared in the section, with a string that differs from
      the proposed raw string\<close>
  "emitted_spec cur e =
     (actionable (snd e) \<and>
      (case cur (fst e) of Some d \<Rightarrow> d \<noteq> snd e | None \<Rightarrow> False))"

definition sectionChanges ::
  "((string \<rightharpoonup> string) \<Rightarrow> string \<times> string \<Rightarrow> bool) \<Rightarrow> dep_type \<Rightarrow> (string \<rightharpoonup> string) option
     \<Rightarrow> (string \<times> string) list \<Rightarrow> jsvalue change list" where
  \<comment> \<open>the Changes of one section: the selected entries, in the solution's iteration order\<close>
  "sectionChanges em ty sec entries =
     (case sec of None \<Rightarrow> [] | Some cur \<Rightarrow> map (changeFor ty cur) (filter (em cur) entries))"

definition isRangeOperator :: "char \<Rightarrow> bool" where
  \<comment> \<open>the first characters of the prefixes \<open>formatVersion\<close> tests for\<close>
  "isRangeOperator c = (c = CHR ''^'' \<or> c = CHR ''~'' \<or> c = CHR ''>'' \<or> c = CHR ''<'')"

subsection \<open>Example inputs\<close>

definition manifest_empty_version :: manifest where
  \<comment> \<open>\<open>{"dependencies": {"a": ""}}\<close>\<close>
  "manifest_empty_version = \<lparr>dependencies = Some [''a'' \<mapsto> ''''], devDependencies = None\<rparr>"

definition solution_a :: solution where
  "solution_a =
     \<lparr>sol_dependencies = [(''a'', ''1.0.0'')], sol_devDependencies = [(''a'', ''1.0.0'')]\<rparr>"

subsection \<open>The classification, described declaratively\<close>

definition startsWithDigit :: "string \<Rightarrow> bool" where
  "startsWithDigit s = (case s of d # t \<Rightarrow> isDigit d | [] \<Rightarrow> False)"

definition startsWithOperator :: "string \<Rightarrow> bool" where
  \<comment> \<open>starts with one of the range-operator characters \<open>^ ~ > = <\<close>\<close>
  "startsWithOperator s = (case s of c # t \<Rightarrow> c \<in> set ''^~>=<'' | [] \<Rightarrow> False)"

definition operatorThenDigit :: "string \<Rightarrow> bool" where
  \<comment> \<open>starts with one range-operator character immediately followed by a digit\<close>
  "operatorThenDigit s =
     (case s of c # d # t \<Rightarrow> c \<in> set ''^~>=<'' \<and> isDigit d | _ \<Rightarrow> False)"

definition hasMarker :: "string \<Rightarrow> bool" where
  \<comment> \<open>the markers, as the code tests them on the lower-cased string\<close>
  "hasMarker lower =
     (includesStr lower ''unknown'' \<or> includesStr lower ''not available''
      \<or> lower = ''pending'' \<or> lower = ''manualreviewrequired'')"

definition validForm :: "string \<Rightarrow> bool" where
  "validForm lower =
     (startsWithDigit lower \<or> operatorThenDigit lower
      \<or> includesStr lower ''*'' \<or> includesStr lower ''latest'')"

definition isUnknownVersion_spec :: "string option \<Rightarrow> bool" where
  \<comment> \<open>the specification's wording: absent, or a marker, or not starting with a digit, a
      range-operator character, an asterisk or \<open>latest\<close>\<close>
  "isUnknownVersion_spec version =
     (case version of
        None \<Rightarrow> True
      | Some v \<Rightarrow>
          (let lower = toLowerCase v
           in includesStr lower ''unknown'' \<or> includesStr lower ''not available''
              \<or> includesStr lower ''pending'' \<or> includesStr lower ''manualreviewrequired''
              \<or> \<not> (startsWithDigit lower \<or> startsWithOperator lower
                     \<or> startsWith lower ''*'' \<or> startsWith lower ''latest'')))"

section \<open>PackageJsonService: the surgical patch engine\<close>

datatype section_name = Dependencies | DevDependencies

fun sectionKey :: "section_name \<Rightarrow> string" where
  "sectionKey Dependencies = ''dependencies''"
| "sectionKey DevDependencies = ''devDependencies''"

definition sectionOf :: "dep_type \<Rightarrow> section_name" where
  \<comment> \<open>\<open>type === 'devDependency' ? 'devDependencies' : 'dependencies'\<close>\<close>
  "sectionOf ty = (if ty = devDependency then DevDependencies else Dependencies)"

fun seqs :: "regex list \<Rightarrow> regex" where
  "seqs [] = Eps"
| "seqs (r # rs) = Seq r (seqs rs)"

subsection \<open>Escaping a string for use in a pattern\<close>

definition regexSpecial :: "char \<Rightarrow> bool" where
  \<comment> \<open>the class \<open>[.*+?^${}()|[\]\\]\<close>\<close>
  "regexSpecial c = (c \<in> set ''.*+?^${}()|[]'' \<or> c = CHR 0x5C)"

definition escapeRegExp :: "string \<Rightarrow> string" where
  \<comment> \<open>\<open>s.replace(/[.*+?^${}()|[\]\\]/g, '\\$&')\<close>: a backslash before each special character\<close>
  "escapeRegExp s = concat (map (\<lambda>c. if regexSpecial c then [CHR 0x5C, c] else [c]) s)"

fun literalPattern :: "string \<Rightarrow> regex" where
  \<comment> \<open>the pattern that \<open>new RegExp\<close> builds from an escaped string: a backslash makes the
      next character literal, any other character stands for itself\<close>
  "literalPattern [] = Eps"
| "literalPattern [c] = Seq (Lit c) Eps"
| "literalPattern (c # d # t) =
     (if c = CHR 0x5C then Seq (Lit d) (literalPattern t)
      else Seq (Lit c) (literalPattern (d # t)))"

subsection \<open>The brace-depth scan\<close>

fun scanBraces :: "string \<Rightarrow> nat \<Rightarrow> int \<Rightarrow> bool \<Rightarrow> nat option" where
  \<comment> \<open>the loop \<open>for (let i = start; i < content.length; i++)\<close>, on the text from \<open>i\<close> on;
      \<open>Some e\<close> when the loop breaks with the end index \<open>e\<close>\<close>
  "scanBraces [] i braceCount inSection = None"
| "scanBraces (c # cs) i braceCount inSection =
     (if c = CHR ''{'' then scanBraces cs (Suc i) (braceCount + 1) True
      else if c = CHR ''}'' then
        (if inSection \<and> braceCount - 1 = 0 then Some (Suc i)
         else scanBraces cs (Suc i) (braceCount - 1) inSection)
      else scanBraces cs (Suc i) braceCount inSection)"

definition sectionEndFrom :: "string \<Rightarrow> nat \<Rightarrow> nat" where
  \<comment> \<open>\<open>let sectionEnd = sectionStart\<close>, then the scan\<close>
  "sectionEndFrom content sectionStart =
     (case scanBraces (drop sectionStart content) sectionStart 0 False of
        Some e \<Rightarrow> e
      | None \<Rightarrow> sectionStart)"

subsection \<open>replaceVersionInSection\<close>

definition sectionRegex :: "section_name \<Rightarrow> regex" where
  \<comment> \<open>\<open>"<section>"\s*:\s*\{\<close>\<close>
  \<open>sectionRegex sec =
     seqs [lits (''"'' @ sectionKey sec @ ''"''), Star Space, Lit CHR '':'', Star Space,
           Lit CHR ''{'']\<close>

definition packagePattern :: "string \<Rightarrow> string \<Rightarrow> regex" where
  \<comment> \<open>\<open>("<name>"\s*:\s*")<from>(")\<close>, name and from-version escaped\<close>
  \<open>packagePattern packageName fromVersion =
     seqs [Group 1 (seqs [Lit CHR ''"'', literalPattern (escapeRegExp packageName), Lit CHR ''"'',
                          Star Space, Lit CHR '':'', Star Space, Lit CHR ''"'']),
           literalPattern (escapeRegExp fromVersion),
           Group 2 (Lit CHR ''"'')]\<close>

definition replaceVersionInSection ::
  "string \<Rightarrow> section_name \<Rightarrow> string \<Rightarrow> string \<Rightarrow> string \<Rightarrow> string \<times> bool" where
  "replaceVersionInSection content sec packageName fromVersion toVersion =
     (case exec (sectionRegex sec) content of
        None \<Rightarrow> (content, False)
      | Some sectionMatch \<Rightarrow>
          (let sectionStart = index sectionMatch;
               sectionEnd = sectionEndFrom content sectionStart;
               sectionContent = substring content sectionStart sectionEnd
           in case exec (packagePattern packageName fromVersion) sectionContent of
                None \<Rightarrow> (content, False)
              | Some m \<Rightarrow>
                  (let newSectionContent =
                         replace (packagePattern packageName fromVersion) sectionContent
                           (''$1'' @ toVersion @ ''$2'');
                       newContent = substring content 0 sectionStart @ newSectionContent
                                    @ substringFrom content sectionEnd
                   in (newContent, True))))"

subsection \<open>removePackageFromSection\<close>

definition removalPattern :: "string \<Rightarrow> regex" where
  \<comment> \<open>\<open>^\s*"<name>"\s*:\s*"[^"]*"\s*,?\s*$\<close>, the name escaped\<close>
  \<open>removalPattern packageName =
     seqs [Bol, Star Space, Lit CHR ''"'', literalPattern (escapeRegExp packageName), Lit CHR ''"'',
           Star Space, Lit CHR '':'', Star Space, Lit CHR ''"'', Star (Except ''"''), Lit CHR ''"'',
           Star Space, Opt (Lit CHR '',''), Star Space, Eol]\<close>

definition trailingCommaPattern :: regex where
  \<comment> \<open>\<open>,(\s*)$\<close>\<close>
  "trailingCommaPattern = seqs [Lit CHR '','', Group 1 (Star Space), Eol]"

definition countChar :: "char \<Rightarrow> string \<Rightarrow> nat" where
  \<comment> \<open>\<open>(line.match(/c/g) || []).length\<close>\<close>
  "countChar c s = length (filter (\<lambda>x. x = c) s)"

fun findPackageLine ::
  "section_name \<Rightarrow> string \<Rightarrow> string list \<Rightarrow> nat \<Rightarrow> bool \<Rightarrow> int \<Rightarrow> (nat \<times> bool) option" where
  \<comment> \<open>the loop over the lines, on the lines from index \<open>i\<close> on; \<open>Some (index, hasTrailingComma)\<close>
      when the package line is found\<close>
  "findPackageLine sec packageName [] i inSection braceCount = None"
| "findPackageLine sec packageName (line # rest) i inSection braceCount =
     (let inSection = (if includesStr line (CHR 0x22 # sectionKey sec @ [CHR 0x22]) then True
                       else inSection)
      in if inSection then
           (let braceCount = braceCount + int (countChar CHR ''{'' line)
                             - int (countChar CHR ''}'' line)
            in if test (removalPattern packageName) line
               then Some (i, endsWith (trimEnd line) '','')
               else if braceCount = 0 \<and> i > 0 then None
               else findPackageLine sec packageName rest (Suc i) inSection braceCount)
         else findPackageLine sec packageName rest (Suc i) inSection braceCount)"

definition removePackageFromSection :: "string \<Rightarrow> section_name \<Rightarrow> string \<Rightarrow> string \<times> bool" where
  \<comment> \<open>\<open>lines[packageLineIndex - 1]\<close> is in range: the index found is below the number of
      lines, and one line is spliced out\<close>
  "removePackageFromSection content sec packageName =
     (let lines = splitLines content
      in case findPackageLine sec packageName lines 0 False 0 of
           None \<Rightarrow> (content, False)
         | Some (packageLineIndex, hasTrailingComma) \<Rightarrow>
             (let lines = take packageLineIndex lines @ drop (Suc packageLineIndex) lines;
                  lines =
                    (if \<not> hasTrailingComma \<and> packageLineIndex > 0 then
                       (let prevLine = lines ! (packageLineIndex - 1)
                        in if endsWith (trimEnd prevLine) '',''
                           then lines[packageLineIndex - 1 :=
                                        replace trailingCommaPattern prevLine ''$1'']
                           else lines)
                     else lines)
              in (joinLines lines, True)))"

subsection \<open>The declaration that is replaced, described declaratively\<close>

definition sectionSpan :: "string \<Rightarrow> section_name \<Rightarrow> (nat \<times> nat) option" where
  \<comment> \<open>the part of the text that \<open>replaceVersionInSection\<close> searches: from the first
      match of the section header to the end found by the brace scan\<close>
  "sectionSpan content sec =
     (case exec (sectionRegex sec) content of
        None \<Rightarrow> None
      | Some sectionMatch \<Rightarrow>
          Some (index sectionMatch, sectionEndFrom content (index sectionMatch)))"

definition sectionHeader :: "section_name \<Rightarrow> string" where
  \<comment> \<open>the quoted section name that the line loop looks for\<close>
  "sectionHeader sec = CHR 0x22 # sectionKey sec @ [CHR 0x22]"

definition startsSection :: "section_name \<Rightarrow> string \<Rightarrow> bool" where
  \<comment> \<open>the text starts with the header of the section: the quoted section name,
      whitespace, a colon, whitespace and an opening brace\<close>
  "startsSection sec s \<longleftrightarrow>
     (\<exists>ws1 ws2 rest. s = sectionHeader sec @ ws1 @ '':'' @ ws2 @ ''{'' @ rest
        \<and> (\<forall>c \<in> set (ws1 @ ws2). isWhiteSpace c))"

definition closesAt :: "string \<Rightarrow> int \<Rightarrow> bool \<Rightarrow> nat \<Rightarrow> bool" where
  \<comment> \<open>character \<open>n\<close> of the text is a closing brace at which the brace scan, started
      with that count and that flag, stops: an opening brace has been seen, and up to and
      including this character as many braces are closed as are opened\<close>
  "closesAt s bc ins n \<longleftrightarrow>
     n < length s \<and> s ! n = CHR ''}'' \<and> (ins \<or> CHR ''{'' \<in> set (take n s))
     \<and> bc + int (countChar CHR ''{'' (take (Suc n) s)) - int (countChar CHR ''}'' (take (Suc n) s)) = 0"

definition declarationHead :: "string \<Rightarrow> string \<Rightarrow> string \<Rightarrow> string" where
  \<comment> \<open>the quoted package name, whitespace, a colon, whitespace, and the opening quote of
      the version string\<close>
  "declarationHead packageName ws1 ws2 =
     [CHR 0x22] @ packageName @ [CHR 0x22] @ ws1 @ '':'' @ ws2 @ [CHR 0x22]"

definition declaresAt :: "string \<Rightarrow> string \<Rightarrow> string \<Rightarrow> bool" where
  \<comment> \<open>the text starts with a declaration of the package with that version string\<close>
  "declaresAt packageName version s \<longleftrightarrow>
     (\<exists>ws1 ws2 rest. s = declarationHead packageName ws1 ws2 @ version @ [CHR 0x22] @ rest
        \<and> (\<forall>c \<in> set (ws1 @ ws2). isWhiteSpace c))"

subsection \<open>The line that is removed, described declaratively\<close>

definition lineBalance :: "string \<Rightarrow> int" where
  \<comment> \<open>the opening braces of a line less its closing braces\<close>
  "lineBalance l = int (countChar CHR ''{'' l) - int (countChar CHR ''}'' l)"

definition braceBalance :: "string list \<Rightarrow> int" where
  \<comment> \<open>the same, summed over lines\<close>
  "braceBalance ls = sum_list (map lineBalance ls)"

definition isPackageLine :: "section_name \<Rightarrow> string \<Rightarrow> string list \<Rightarrow> nat \<Rightarrow> bool" where
  \<comment> \<open>line \<open>k\<close> is the package's line in the section: with \<open>h\<close> the first line that
      holds the quoted section name, \<open>k\<close> is the first line from \<open>h\<close> on that matches the
      declaration pattern of the package, and at no line from \<open>h\<close> to before \<open>k\<close>,
      line 0 apart, are the braces opened since line \<open>h\<close> all closed again\<close>
  "isPackageLine sec pkg ls k \<longleftrightarrow>
     k < length ls \<and> test (removalPattern pkg) (ls ! k)
     \<and> (\<exists>h\<le>k. includesStr (ls ! h) (sectionHeader sec)
           \<and> (\<forall>j<h. \<not> includesStr (ls ! j) (sectionHeader sec))
           \<and> (\<forall>j. h \<le> j \<and> j < k \<longrightarrow>
                 \<not> test (removalPattern pkg) (ls ! j)
                 \<and> \<not> (0 < j \<and> braceBalance (take (Suc j - h) (drop h ls)) = 0)))"

subsection \<open>updateEngines\<close>

datatype engineKey = node | npm

fun keyName :: "engineKey \<Rightarrow> string" where
  "keyName node = ''node''"
| "keyName npm = ''npm''"

text \<open>
  The engines object \<open>{ node?: string; npm?: string }\<close> is the list of its entries in the
  order of \<open>Object.entries\<close>, each key at most once; a property set to \<open>undefined\<close> is an
  entry with value \<open>None\<close>.
\<close>

type_synonym engines = "(engineKey \<times> string option) list"

definition enginesRegex :: regex where
  \<comment> \<open>\<open>/"engines"\s*:\s*\{/\<close>\<close>
  \<open>enginesRegex = seqs [lits ''"engines"'', Star Space, Lit CHR '':'', Star Space, Lit CHR ''{'']\<close>

definition engineKeyPattern :: "engineKey \<Rightarrow> regex" where
  \<comment> \<open>\<open>("<key>"\s*:\s*)"[^"]*"\<close>\<close>
  \<open>engineKeyPattern key =
     seqs [Group 1 (seqs [lits (''"'' @ keyName key @ ''"''), Star Space, Lit CHR '':'', Star Space]),
           Lit CHR ''"'', Star (Except ''"''), Lit CHR ''"'']\<close>

definition entryPattern :: regex where
  \<comment> \<open>\<open>/"[^"]+"\s*:\s*"[^"]*"/\<close>\<close>
  \<open>entryPattern =
     seqs [Lit CHR ''"'', Plus (Except ''"''), Lit CHR ''"'', Star Space, Lit CHR '':'', Star Space,
           Lit CHR ''"'', Star (Except ''"''), Lit CHR ''"'']\<close>

definition trailingSpacePattern :: regex where
  \<comment> \<open>\<open>/(\s*)$/\<close>\<close>
  "trailingSpacePattern = seqs [Group 1 (Star Space), Eol]"

definition versionPattern :: regex where
  \<comment> \<open>\<open>/"version"\s*:\s*"[^"]*"/\<close>\<close>
  \<open>versionPattern =
     seqs [lits ''"version"'', Star Space, Lit CHR '':'', Star Space,
           Lit CHR ''"'', Star (Except ''"''), Lit CHR ''"'']\<close>

definition namePattern :: regex where
  \<comment> \<open>\<open>/"name"\s*:\s*"[^"]*"/\<close>\<close>
  \<open>namePattern =
     seqs [lits ''"name"'', Star Space, Lit CHR '':'', Star Space,
           Lit CHR ''"'', Star (Except ''"''), Lit CHR ''"'']\<close>

definition commaAfterPattern :: regex where
  \<comment> \<open>\<open>/^\s*,/\<close>\<close>
  "commaAfterPattern = seqs [Bol, Star Space, Lit CHR '','']"

definition commaMatchPattern :: regex where
  \<comment> \<open>\<open>/^(\s*,)/\<close>\<close>
  "commaMatchPattern = seqs [Bol, Group 1 (seqs [Star Space, Lit CHR '','']) ]"

definition indent :: string where
  "indent = ''    ''"

definition lastIndexOf :: "string \<Rightarrow> char \<Rightarrow> int" where
  \<comment> \<open>\<open>-1\<close> when the character does not occur\<close>
  "lastIndexOf s c =
     (case filter (\<lambda>i. s ! i = c) (rev [0 ..< length s]) of i # _ \<Rightarrow> int i | [] \<Rightarrow> - 1)"

fun joinWith :: "string \<Rightarrow> string list \<Rightarrow> string" where
  "joinWith sep [] = []"
| "joinWith sep [l] = l"
| "joinWith sep (l # ls) = l @ sep @ joinWith sep ls"

fun updateExistingLoop :: "engines \<Rightarrow> string \<Rightarrow> nat \<Rightarrow> string \<times> nat" where
  \<comment> \<open>the loop over the entries when an engines block exists; \<open>substring\<close> clamps the
      index \<open>-1\<close> of a missing brace to 0\<close>
  "updateExistingLoop [] newEnginesContent updated = (newEnginesContent, updated)"
| "updateExistingLoop ((key, val) # rest) newEnginesContent updated =
     (case val of
        None \<Rightarrow> updateExistingLoop rest newEnginesContent updated
      | Some v \<Rightarrow>
          if v = [] then updateExistingLoop rest newEnginesContent updated
          else if test (engineKeyPattern key) newEnginesContent
          then updateExistingLoop rest
                 (replace (engineKeyPattern key) newEnginesContent
                    (''$1'' @ [CHR 0x22] @ v @ [CHR 0x22]))
                 (Suc updated)
          else
            (let closingBraceIndex = lastIndexOf newEnginesContent CHR ''}'';
                 beforeBrace = substring newEnginesContent 0 (nat closingBraceIndex);
                 afterBrace = substringFrom newEnginesContent (nat closingBraceIndex);
                 hasEntries = test entryPattern beforeBrace;
                 entry = [CHR 0x22] @ keyName key @ [CHR 0x22] @ '': '' @ [CHR 0x22] @ v @ [CHR 0x22]
             in updateExistingLoop rest
                  (if hasEntries
                   then replace trailingSpacePattern beforeBrace
                          ('','' @ [CHR 0x0A] @ indent @ entry @ ''$1'') @ afterBrace
                   else beforeBrace @ [CHR 0x0A] @ indent @ entry @ [CHR 0x0A] @ ''  '' @ afterBrace)
                  (Suc updated)))"

definition enginesObj :: "engines \<Rightarrow> (engineKey \<times> string) list" where
  \<comment> \<open>the entries with a non-empty value, in order\<close>
  "enginesObj engines =
     concat (map (\<lambda>(key, val). case val of None \<Rightarrow> [] | Some v \<Rightarrow> if v = [] then [] else [(key, v)])
               engines)"

definition enginesStr :: "(engineKey \<times> string) list \<Rightarrow> string" where
  "enginesStr obj =
     [CHR 0x22] @ ''engines'' @ [CHR 0x22] @ '': {'' @ [CHR 0x0A]
     @ joinWith ('','' @ [CHR 0x0A])
         (map (\<lambda>(k, v). indent @ [CHR 0x22] @ keyName k @ [CHR 0x22] @ '': '' @ [CHR 0x22] @ v @ [CHR 0x22])
            obj)
     @ [CHR 0x0A] @ ''  }''"

definition updateEngines :: "string \<Rightarrow> engines \<Rightarrow> string \<times> nat" where
  "updateEngines content engines =
     (if test enginesRegex content then
        (case exec enginesRegex content of
           None \<Rightarrow> (content, 0)
         | Some enginesMatch \<Rightarrow>
             (let enginesStart = index enginesMatch;
                  enginesEnd = sectionEndFrom content enginesStart;
                  enginesContent = substring content enginesStart enginesEnd;
                  (newEnginesContent, updated) = updateExistingLoop engines enginesContent 0
              in (substring content 0 enginesStart @ newEnginesContent
                  @ substringFrom content enginesEnd, updated)))
      else
        (let obj = enginesObj engines;
             updated = length obj
         in if updated > 0 then
              (case (case exec versionPattern content of
                       Some m \<Rightarrow> Some m
                     | None \<Rightarrow> exec namePattern content) of
                 None \<Rightarrow> (content, updated)
               | Some insertMatch \<Rightarrow>
                   (let insertPoint = index insertMatch + length (matched insertMatch);
                        afterInsert = substringFrom content insertPoint
                    in if test commaAfterPattern afterInsert then
                         (case exec commaMatchPattern afterInsert of
                            None \<Rightarrow> (content, updated)
                          | Some commaMatch \<Rightarrow>
                              (let afterComma = insertPoint + length (matched commaMatch)
                               in (substring content 0 afterComma @ [CHR 0x0A] @ ''  ''
                                   @ enginesStr obj @ '','' @ substringFrom content afterComma,
                                   updated)))
                       else (substring content 0 insertPoint @ '','' @ [CHR 0x0A] @ ''  ''
                             @ enginesStr obj @ substringFrom content insertPoint, updated)))
            else (content, updated)))"

subsection \<open>applySurgicalFixes\<close>

record removal =
  rm_package :: string
  rm_reason :: string
  rm_type :: dep_type

fun applyChanges :: "string change list \<Rightarrow> string \<Rightarrow> nat \<Rightarrow> string \<times> nat" where
  \<comment> \<open>the loop \<open>for (const change of changes)\<close>\<close>
  "applyChanges [] content applied = (content, applied)"
| "applyChanges (ch # rest) content applied =
     (case replaceVersionInSection content (sectionOf (dtype ch)) (package ch)
             (from_version ch) (to_version ch) of
        (content', replaced) \<Rightarrow>
          if replaced then applyChanges rest content' (Suc applied)
          else applyChanges rest content applied)"

fun applyRemovals :: "removal list \<Rightarrow> string \<Rightarrow> nat \<Rightarrow> string \<times> nat" where
  \<comment> \<open>the loop \<open>for (const removal of removals)\<close>\<close>
  "applyRemovals [] content removed = (content, removed)"
| "applyRemovals (r # rest) content removed =
     (case removePackageFromSection content (sectionOf (rm_type r)) (rm_package r) of
        (content', wasRemoved) \<Rightarrow>
          if wasRemoved then applyRemovals rest content' (Suc removed)
          else applyRemovals rest content removed)"

definition patchText ::
  "string \<Rightarrow> string change list \<Rightarrow> removal list option \<Rightarrow> engines option \<Rightarrow> string \<times> nat \<times> nat \<times> nat" where
  \<comment> \<open>what \<open>applySurgicalFixes\<close> does to the text between reading and writing it:
      the new text and the three counts\<close>
  "patchText content changes removals engs =
     (let (content, applied) = applyChanges changes content 0;
          (content, removed) =
            (case removals of
               Some rs \<Rightarrow> if length rs > 0 then applyRemovals rs content 0 else (content, 0)
             | None \<Rightarrow> (content, 0));
          (content, enginesUpdated) =
            (case engs of
               Some e \<Rightarrow> if length e > 0 then updateEngines content e else (content, 0)
             | None \<Rightarrow> (content, 0))
      in (content, applied, removed, enginesUpdated))"

text \<open>
  The file system: the bytes of each file by path, the paths that cannot be written, and the
  log of the operations completed so far. \<open>fs.readFile(path, 'utf-8')\<close> decodes the bytes
  of the file to a string and \<open>fs.writeFile(path, text, 'utf-8')\<close> encodes the string to
  bytes; the decoder and the encoder belong to the platform and are fields of the file system.
  Decoding is lossy on bytes that are not valid UTF-8, so the encoding of the decoded text
  need not be the bytes that were read. Reading a missing file and writing an unwritable path
  fail, as the promise of \<open>fs.readFile\<close> or \<open>fs.writeFile\<close> rejects; \<open>await\<close> then
  throws, and \<open>applySurgicalFixes\<close> stops there.
\<close>

type_synonym bytes = "nat list"

datatype fs_event = ReadFile string | WriteFile string bytes

datatype fs_error = ENOENT string | EACCES string

record filesystem =
  files :: "string \<rightharpoonup> bytes"
  unwritable :: "string set"
  oplog :: "fs_event list"
  decodeUtf8 :: "bytes \<Rightarrow> string"
  encodeUtf8 :: "string \<Rightarrow> bytes"

definition readFile :: "filesystem \<Rightarrow> string \<Rightarrow> fs_error + (string \<times> filesystem)" where
  \<comment> \<open>\<open>fs.readFile(p, 'utf-8')\<close>: the decoded bytes of the file\<close>
  "readFile fs p =
     (case files fs p of
        None \<Rightarrow> Inl (ENOENT p)
      | Some raw \<Rightarrow> Inr (decodeUtf8 fs raw, fs\<lparr>oplog := oplog fs @ [ReadFile p]\<rparr>))"

definition writeFile :: "filesystem \<Rightarrow> string \<Rightarrow> string \<Rightarrow> fs_error + filesystem" where
  \<comment> \<open>\<open>fs.writeFile(p, content, 'utf-8')\<close>: the file holds the encoded text\<close>
  "writeFile fs p content =
     (if p \<in> unwritable fs then Inl (EACCES p)
      else Inr (fs\<lparr>files := (files fs)(p \<mapsto> encodeUtf8 fs content),
                   oplog := oplog fs @ [WriteFile p (encodeUtf8 fs content)]\<rparr>))"

definition asciiDecode :: "bytes \<Rightarrow> string" where
  \<comment> \<open>UTF-8 decoding of ASCII bytes: one character for each byte\<close>
  "asciiDecode raw = map char_of raw"

definition asciiEncode :: "string \<Rightarrow> bytes" where
  \<comment> \<open>UTF-8 encoding of ASCII text: one byte for each character\<close>
  "asciiEncode s = map of_char s"

definition pathJoin :: "string \<Rightarrow> string \<Rightarrow> string" where
  \<comment> \<open>\<open>path.join(dir, name)\<close> for a directory path without a trailing separator; the
      normalisation that \<open>path.join\<close> does on \<open>dir\<close> is not modelled\<close>
  "pathJoin dir name = dir @ ''/'' @ name"

record patchResult =
  backupPath :: string
  applied :: nat
  removed :: nat
  enginesUpdated :: nat

definition applySurgicalFixes ::
  "filesystem \<Rightarrow> string \<Rightarrow> string change list \<Rightarrow> removal list option \<Rightarrow> engines option
     \<Rightarrow> filesystem \<times> (fs_error + patchResult)" where
  \<comment> \<open>the file system after the call, and the error thrown or the result returned\<close>
  "applySurgicalFixes fs dir changes removals engs =
     (let filePath = pathJoin dir ''package.json''
      in case readFile fs filePath of
           Inl e \<Rightarrow> (fs, Inl e)
         | Inr (content, fs1) \<Rightarrow>
             (let bakPath = pathJoin dir ''package.json.bak''
              in case writeFile fs1 bakPath content of
                   Inl e \<Rightarrow> (fs1, Inl e)
                 | Inr fs2 \<Rightarrow>
                     (case patchText content changes removals engs of
                        (content', nApplied, nRemoved, nEngines) \<Rightarrow>
                          (case writeFile fs2 filePath content' of
                             Inl e \<Rightarrow> (fs2, Inl e)
                           | Inr fs3 \<Rightarrow>
                               (fs3, Inr \<lparr>backupPath = bakPath, applied = nApplied,
                                          removed = nRemoved,
                                          enginesUpdated = nEngines\<rparr>)))))"

section \<open>JSON.parse\<close>

text \<open>
  \<open>JSON.parse\<close> belongs to the platform, not to the repository. It is modelled by a
  recursive-descent parser of the JSON grammar (objects, arrays, strings with their escapes,
  numbers, \<open>true\<close>, \<open>false\<close>, \<open>null\<close>, and the four whitespace characters). The parser
  counts its calls down from a bound; a text that fails to parse fails with \<open>SyntaxError\<close>,
  as \<open>JSON.parse\<close> throws, and running out of the bound is a different outcome,
  \<open>OutOfFuel\<close>, so that a reported syntax error is never an artefact of the bound. A
  \<open>\u\<close> escape is read as the code unit's low byte, strings being modelled up to 255.
\<close>

datatype json =
    JNull
  | JBool bool
  | JNumber string
  | JString string
  | JArray "json list"
  | JObject "(string \<times> json) list"

datatype parse_error = SyntaxError | OutOfFuel

definition isJsonWs :: "char \<Rightarrow> bool" where
  "isJsonWs c = (c = CHR '' '' \<or> c = CHR 0x09 \<or> c = CHR 0x0A \<or> c = CHR 0x0D)"

definition skipWs :: "string \<Rightarrow> string" where
  "skipWs s = dropWhile isJsonWs s"

definition hexVal :: "char \<Rightarrow> nat option" where
  "hexVal c =
     (let n = (of_char c :: nat)
      in if 48 \<le> n \<and> n \<le> 57 then Some (n - 48)
         else if 65 \<le> n \<and> n \<le> 70 then Some (n - 55)
         else if 97 \<le> n \<and> n \<le> 102 then Some (n - 87)
         else None)"

definition unescape :: "char \<Rightarrow> char option" where
  \<comment> \<open>the character after a backslash, other than \<open>u\<close>\<close>
  "unescape e =
     (if e = CHR 0x22 then Some (CHR 0x22)
      else if e = CHR 0x5C then Some (CHR 0x5C)
      else if e = CHR ''/'' then Some (CHR ''/'')
      else if e = CHR ''b'' then Some (CHR 0x08)
      else if e = CHR ''f'' then Some (CHR 0x0C)
      else if e = CHR ''n'' then Some (CHR 0x0A)
      else if e = CHR ''r'' then Some (CHR 0x0D)
      else if e = CHR ''t'' then Some (CHR 0x09)
      else None)"

fun parseStringBody :: "string \<Rightarrow> (string \<times> string) option" where
  \<comment> \<open>the text after an opening quote: the string's value and the text after the closing
      quote\<close>
  "parseStringBody [] = None"
| "parseStringBody (c # s) =
     (if c = CHR 0x22 then Some ([], s)
      else if c = CHR 0x5C then
        (case s of
           [] \<Rightarrow> None
         | e # t \<Rightarrow>
             if e = CHR ''u'' then
               (case t of
                  h1 # h2 # h3 # h4 # t' \<Rightarrow>
                    (case (hexVal h1, hexVal h2, hexVal h3, hexVal h4) of
                       (Some a, Some b, Some c', Some d) \<Rightarrow>
                         (case parseStringBody t' of
                            None \<Rightarrow> None
                          | Some (r, rest) \<Rightarrow> Some (char_of (16 * c' + d) # r, rest))
                     | _ \<Rightarrow> None)
                | _ \<Rightarrow> None)
             else
               (case unescape e of
                  None \<Rightarrow> None
                | Some x \<Rightarrow>
                    (case parseStringBody t of
                       None \<Rightarrow> None
                     | Some (r, rest) \<Rightarrow> Some (x # r, rest))))
      else if (of_char c :: nat) < 32 then None
      else (case parseStringBody s of
              None \<Rightarrow> None
            | Some (r, rest) \<Rightarrow> Some (c # r, rest)))"

definition parseDigits :: "string \<Rightarrow> (string \<times> string) option" where
  \<comment> \<open>one digit or more\<close>
  "parseDigits s =
     (let ds = takeWhile isDigit s
      in if ds = [] then None else Some (ds, drop (length ds) s))"

definition parseNumber :: "string \<Rightarrow> (string \<times> string) option" where
  \<comment> \<open>\<open>-? (0 | [1-9][0-9]*) (. [0-9]+)? ([eE] [+-]? [0-9]+)?\<close>: the number's text and the
      text after it\<close>
  "parseNumber s =
     (let (sign, s1) = (case s of c # t \<Rightarrow> if c = CHR ''-'' then ([c], t) else ([], s) | [] \<Rightarrow> ([], s))
      in case (case s1 of
                 c # t \<Rightarrow> if c = CHR ''0'' then Some ([c], t) else parseDigits s1
               | [] \<Rightarrow> None) of
           None \<Rightarrow> None
         | Some (ip, s2) \<Rightarrow>
             (case (case s2 of
                      c # t \<Rightarrow>
                        if c = CHR ''.''
                        then (case parseDigits t of None \<Rightarrow> None | Some (fp, r) \<Rightarrow> Some (c # fp, r))
                        else Some ([], s2)
                    | [] \<Rightarrow> Some ([], s2)) of
                None \<Rightarrow> None
              | Some (fp, s3) \<Rightarrow>
                  (case (case s3 of
                           c # t \<Rightarrow>
                             if c = CHR ''e'' \<or> c = CHR ''E'' then
                               (let (es, t') = (case t of
                                                  x # u \<Rightarrow> if x = CHR ''+'' \<or> x = CHR ''-''
                                                           then ([x], u) else ([], t)
                                                | [] \<Rightarrow> ([], t))
                                in case parseDigits t' of
                                     None \<Rightarrow> None
                                   | Some (ep, r) \<Rightarrow> Some (c # es @ ep, r))
                             else Some ([], s3)
                         | [] \<Rightarrow> Some ([], s3)) of
                     None \<Rightarrow> None
                   | Some (ep, s4) \<Rightarrow> Some (sign @ ip @ fp @ ep, s4))))"

fun parseValue :: "nat \<Rightarrow> string \<Rightarrow> parse_error + (json \<times> string)"
  and parseMembers ::
    "nat \<Rightarrow> string \<Rightarrow> (string \<times> json) list \<Rightarrow> parse_error + (json \<times> string)"
  and parseElements :: "nat \<Rightarrow> string \<Rightarrow> json list \<Rightarrow> parse_error + (json \<times> string)" where
  "parseValue 0 s = Inl OutOfFuel"
| "parseValue (Suc n) s =
     (case skipWs s of
        [] \<Rightarrow> Inl SyntaxError
      | c # t \<Rightarrow>
          if c = CHR ''{'' then
            (case skipWs t of
               [] \<Rightarrow> Inl SyntaxError
             | d # r \<Rightarrow> if d = CHR ''}'' then Inr (JObject [], r) else parseMembers n t [])
          else if c = CHR ''['' then
            (case skipWs t of
               [] \<Rightarrow> Inl SyntaxError
             | d # r \<Rightarrow> if d = CHR '']'' then Inr (JArray [], r) else parseElements n t [])
          else if c = CHR 0x22 then
            (case parseStringBody t of
               None \<Rightarrow> Inl SyntaxError
             | Some (x, r) \<Rightarrow> Inr (JString x, r))
          else if startsWith (c # t) ''true'' then Inr (JBool True, drop 4 (c # t))
          else if startsWith (c # t) ''false'' then Inr (JBool False, drop 5 (c # t))
          else if startsWith (c # t) ''null'' then Inr (JNull, drop 4 (c # t))
          else (case parseNumber (c # t) of
                  None \<Rightarrow> Inl SyntaxError
                | Some (x, r) \<Rightarrow> Inr (JNumber x, r)))"
| "parseMembers 0 s acc = Inl OutOfFuel"
| "parseMembers (Suc n) s acc =
     (case skipWs s of
        [] \<Rightarrow> Inl SyntaxError
      | c # t \<Rightarrow>
          if c \<noteq> CHR 0x22 then Inl SyntaxError
          else
            (case parseStringBody t of
               None \<Rightarrow> Inl SyntaxError
             | Some (key, r) \<Rightarrow>
                 (case skipWs r of
                    [] \<Rightarrow> Inl SyntaxError
                  | d # r2 \<Rightarrow>
                      if d \<noteq> CHR '':'' then Inl SyntaxError
                      else
                        (case parseValue n r2 of
                           Inl e \<Rightarrow> Inl e
                         | Inr (v, r3) \<Rightarrow>
                             (case skipWs r3 of
                                [] \<Rightarrow> Inl SyntaxError
                              | x # r4 \<Rightarrow>
                                  if x = CHR '','' then parseMembers n r4 (acc @ [(key, v)])
                                  else if x = CHR ''}'' then Inr (JObject (acc @ [(key, v)]), r4)
                                  else Inl SyntaxError)))))"
| "parseElements 0 s acc = Inl OutOfFuel"
| "parseElements (Suc n) s acc =
     (case parseValue n s of
        Inl e \<Rightarrow> Inl e
      | Inr (v, r) \<Rightarrow>
          (case skipWs r of
             [] \<Rightarrow> Inl SyntaxError
           | x # r2 \<Rightarrow>
               if x = CHR '','' then parseElements n r2 (acc @ [v])
               else if x = CHR '']'' then Inr (JArray (acc @ [v]), r2)
               else Inl SyntaxError))"

definition JSON_parse :: "string \<Rightarrow> parse_error + json" where
  "JSON_parse s =
     (case parseValue (Suc (length s)) s of
        Inl e \<Rightarrow> Inl e
      | Inr (v, r) \<Rightarrow> if skipWs r = [] then Inr v else Inl SyntaxError)"

definition parsesAsObject :: "string \<Rightarrow> bool" where
  \<comment> \<open>the text is valid JSON and its value is an object\<close>
  "parsesAsObject s = (case JSON_parse s of Inr (JObject kvs) \<Rightarrow> True | _ \<Rightarrow> False)"

subsection \<open>The parsed manifest\<close>

fun stringEntries :: "(string \<times> json) list \<Rightarrow> (string \<times> string) list option" where
  \<comment> \<open>the entries of a section, when every value is a string\<close>
  "stringEntries [] = Some []"
| "stringEntries ((k, v) # kvs) =
     (case (v, stringEntries kvs) of
        (JString x, Some es) \<Rightarrow> Some ((k, x) # es)
      | _ \<Rightarrow> None)"

definition sectionOfJson :: "(string \<times> json) list \<Rightarrow> string \<Rightarrow> (string \<rightharpoonup> string) option option" where
  \<comment> \<open>a section of the parsed document: absent (or \<open>null\<close>, which is as falsy), or an object
      of strings, of which a repeated key keeps its last value; \<open>None\<close> for a document
      outside the data model (a section that is not an object of strings)\<close>
  "sectionOfJson kvs name =
     (case map_of (rev kvs) name of
        None \<Rightarrow> Some None
      | Some JNull \<Rightarrow> Some None
      | Some (JObject es) \<Rightarrow>
          (case stringEntries es of
             None \<Rightarrow> None
           | Some ses \<Rightarrow> Some (Some (map_of (rev ses))))
      | Some _ \<Rightarrow> None)"

definition manifestOfJson :: "json \<Rightarrow> manifest option" where
  "manifestOfJson j =
     (case j of
        JObject kvs \<Rightarrow>
          (case (sectionOfJson kvs ''dependencies'', sectionOfJson kvs ''devDependencies'') of
             (Some deps, Some devDeps) \<Rightarrow> Some \<lparr>dependencies = deps, devDependencies = devDeps\<rparr>
           | _ \<Rightarrow> None)
      | _ \<Rightarrow> None)"

definition readManifest :: "string \<Rightarrow> manifest option" where
  \<comment> \<open>the \<open>parsed\<close> of \<open>read\<close>: \<open>JSON.parse(content)\<close>, seen as a manifest\<close>
  "readManifest content =
     (case JSON_parse content of Inl e \<Rightarrow> None | Inr j \<Rightarrow> manifestOfJson j)"

definition computeChanges :: "string \<Rightarrow> solution \<Rightarrow> jsvalue change list option" where
  \<comment> \<open>what the callers do: \<open>getChanges\<close> on the parsed text\<close>
  "computeChanges content sol =
     (case readManifest content of
        None \<Rightarrow> None
      | Some original \<Rightarrow> Some (getChanges original sol))"

definition typedChange :: "jsvalue change \<Rightarrow> string change option" where
  \<comment> \<open>a Change as \<open>applySurgicalFixes\<close> declares it, with a string as from-version\<close>
  "typedChange ch =
     (case from_version ch of
        Str s \<Rightarrow> Some \<lparr>package = package ch, from_version = s, to_version = to_version ch,
                        dtype = dtype ch\<rparr>
      | Inherited key \<Rightarrow> None)"

fun typedChanges :: "jsvalue change list \<Rightarrow> string change list option" where
  "typedChanges [] = Some []"
| "typedChanges (ch # rest) =
     (case (typedChange ch, typedChanges rest) of
        (Some c, Some cs) \<Rightarrow> Some (c # cs)
      | _ \<Rightarrow> None)"

definition recomputeAfterApply :: "string \<Rightarrow> solution \<Rightarrow> jsvalue change list option" where
  \<comment> \<open>build the Change list, apply it to the text, re-parse, and build the Change list
      again; \<open>None\<close> when a text does not parse to a manifest, or when the Change list is
      not one that \<open>applySurgicalFixes\<close> is declared for\<close>
  "recomputeAfterApply content sol =
     (case readManifest content of
        None \<Rightarrow> None
      | Some original \<Rightarrow>
          (case typedChanges (getChanges original sol) of
             None \<Rightarrow> None
           | Some changes \<Rightarrow>
               (case patchText content changes None None of
                  (content', counts) \<Rightarrow>
                    (case readManifest content' of
                       None \<Rightarrow> None
                     | Some reparsed \<Rightarrow> Some (getChanges reparsed sol)))))"

subsection \<open>Example manifests\<close>

definition manifest_two_entries :: string where
  \<open>manifest_two_entries = joinLines
    [''{'',
     ''  "name": "demo",'',
     ''  "version": "1.0.0",'',
     ''  "dependencies": {'',
     ''    "lodash": "^4.17.0",'',
     ''    "axios": "^0.21.0"'',
     ''  }'',
     ''}'']\<close>

definition manifest_two_entries_patched :: string where
  \<comment> \<open>the same manifest after \<open>lodash\<close> is patched to \<open>^4.17.21\<close>\<close>
  \<open>manifest_two_entries_patched = joinLines
    [''{'',
     ''  "name": "demo",'',
     ''  "version": "1.0.0",'',
     ''  "dependencies": {'',
     ''    "lodash": "^4.17.21",'',
     ''    "axios": "^0.21.0"'',
     ''  }'',
     ''}'']\<close>

definition manifest_same_version :: string where
  \<comment> \<open>a project whose own version is the version it declares for a dependency\<close>
  \<open>manifest_same_version = joinLines
    [''{'',
     ''  "name": "demo",'',
     ''  "version": "1.0.0",'',
     ''  "dependencies": {'',
     ''    "a": "1.0.0"'',
     ''  }'',
     ''}'']\<close>

definition twoLineManifest :: string where
  \<comment> \<open>a declaration whose version string is on the line after the package name\<close>
  \<open>twoLineManifest = joinLines [''{"dependencies": {"a":'', ''"1"}}'']\<close>

definition manifest_no_identity :: string where
  \<comment> \<open>a manifest with neither a name nor a version field\<close>
  \<open>manifest_no_identity = joinLines
    [''{'',
     ''  "private": true,'',
     ''  "dependencies": {'',
     ''    "a": "1.0.0"'',
     ''  }'',
     ''}'']\<close>

definition manifest_blank_line :: string where
  \<comment> \<open>a blank line before the last entry of the section\<close>
  \<open>manifest_blank_line = joinLines
    [''{'',
     ''  "dependencies": {'',
     ''    "a": "1.0.0",'',
     '''',
     ''    "b": "2.0.0"'',
     ''  }'',
     ''}'']\<close>

definition solution_lodash_raw :: solution where
  "solution_lodash_raw = \<lparr>sol_dependencies = [(''lodash'', ''4.17.21'')], sol_devDependencies = []\<rparr>"

definition solution_lodash_formatted :: solution where
  "solution_lodash_formatted = \<lparr>sol_dependencies = [(''lodash'', ''^4.17.21'')], sol_devDependencies = []\<rparr>"

definition fs_project :: filesystem where
  "fs_project =
     \<lparr>files = [''/proj/package.json'' \<mapsto> asciiEncode manifest_two_entries], unwritable = {},
      oplog = [], decodeUtf8 = asciiDecode, encodeUtf8 = asciiEncode\<rparr>"

definition fs_backup_refused :: filesystem where
  \<comment> \<open>the same project, where the backup file cannot be written\<close>
  "fs_backup_refused =
     \<lparr>files = [''/proj/package.json'' \<mapsto> asciiEncode manifest_two_entries],
      unwritable = {''/proj/package.json.bak''},
      oplog = [], decodeUtf8 = asciiDecode, encodeUtf8 = asciiEncode\<rparr>"

definition fs_blank_line :: filesystem where
  "fs_blank_line =
     \<lparr>files = [''/proj/package.json'' \<mapsto> asciiEncode manifest_blank_line], unwritable = {},
      oplog = [], decodeUtf8 = asciiDecode, encodeUtf8 = asciiEncode\<rparr>"

section \<open>Properties of the string operations\<close>

lemma startsWith_iff: "startsWith s p \<longleftrightarrow> (\<exists>b. s = p @ b)"
  unfolding startsWith_def by (metis append_eq_conv_conj append_take_drop_id)

lemma includesStr_iff: "includesStr s p \<longleftrightarrow> (\<exists>a b. s = a @ p @ b)"
proof (induction s)
  case Nil
  then show ?case by auto
next
  case (Cons c s)
  show ?case
  proof
    assume "includesStr (c # s) p"
    then consider "startsWith (c # s) p" | "includesStr s p" by auto
    then show "\<exists>a b. c # s = a @ p @ b"
    proof cases
      case 1
      then obtain b where "c # s = p @ b" using startsWith_iff by blast
      then have "c # s = [] @ p @ b" by simp
      then show ?thesis by blast
    next
      case 2
      then obtain a b where "s = a @ p @ b" using Cons.IH by blast
      then have "c # s = (c # a) @ p @ b" by simp
      then show ?thesis by blast
    qed
  next
    assume "\<exists>a b. c # s = a @ p @ b"
    then obtain a b where ab: "c # s = a @ p @ b" by blast
    show "includesStr (c # s) p"
    proof (cases a)
      case Nil
      then have "\<exists>b. c # s = p @ b" using ab by auto
      then have "startsWith (c # s) p" using startsWith_iff by blast
      then show ?thesis by simp
    next
      case (Cons x a')
      then have "s = a' @ p @ b" using ab by simp
      then show ?thesis using Cons.IH by auto
    qed
  qed
qed

section \<open>The regular-expression matcher\<close>


lemma execFrom_None_iff:
  "execFrom r i s = None \<longleftrightarrow> (\<forall>j \<le> length s. rmatch r (i + j = 0, drop j s, []) = [])"
proof (induction s arbitrary: i)
  case Nil
  show ?case
    by (subst execFrom.simps) (simp split: list.splits)
next
  case (Cons c s)
  have step: "execFrom r i (c # s) = None \<longleftrightarrow>
      rmatch r (i = 0, c # s, []) = [] \<and> execFrom r (Suc i) s = None"
    by (subst execFrom.simps) (auto split: list.splits)
  have "(\<forall>j \<le> length (c # s). rmatch r (i + j = 0, drop j (c # s), []) = []) \<longleftrightarrow>
        rmatch r (i = 0, c # s, []) = [] \<and> (\<forall>j \<le> length s. rmatch r (Suc i + j = 0, drop j s, []) = [])"
    (is "?L \<longleftrightarrow> ?R")
  proof
    assume L: ?L
    have "rmatch r (i = 0, c # s, []) = []" using L[rule_format, of 0] by simp
    moreover have "\<forall>j \<le> length s. rmatch r (Suc i + j = 0, drop j s, []) = []"
    proof (intro allI impI)
      fix j assume "j \<le> length s"
      then show "rmatch r (Suc i + j = 0, drop j s, []) = []"
        using L[rule_format, of "Suc j"] by simp
    qed
    ultimately show ?R by blast
  next
    assume R: ?R
    show ?L
    proof (intro allI impI)
      fix j assume j: "j \<le> length (c # s)"
      show "rmatch r (i + j = 0, drop j (c # s), []) = []"
      proof (cases j)
        case 0
        then show ?thesis using R by simp
      next
        case (Suc k)
        then show ?thesis using R j by simp
      qed
    qed
  qed
  then show ?case using step Cons.IH[of "Suc i"] by simp
qed

lemma test_iff:
  "test r s \<longleftrightarrow> (\<exists>j \<le> length s. rmatch r (j = 0, drop j s, []) \<noteq> [])"
  unfolding test_def exec_def using execFrom_None_iff[of r 0 s] by auto

lemma rmatch_lits:
  "rmatch (lits p) (b, s, cs) =
     (if startsWith s p then [(b \<and> p = [], drop (length p) s, cs)] else [])"
proof (induction p arbitrary: b s)
  case Nil
  then show ?case by (simp add: startsWith_def)
next
  case (Cons c p)
  show ?case
  proof (cases s)
    case Nil
    then show ?thesis by (simp add: startsWith_def rmatch.simps)
  next
    case (Cons x xs)
    then show ?thesis using Cons.IH[of False xs]
      by (auto simp: startsWith_def rmatch.simps)
  qed
qed

lemma includesStr_drop:
  "includesStr s p \<longleftrightarrow> (\<exists>j \<le> length s. startsWith (drop j s) p)"
proof
  assume "includesStr s p"
  then obtain a b where "s = a @ p @ b" using includesStr_iff by blast
  then have "length a \<le> length s \<and> startsWith (drop (length a) s) p"
    by (simp add: startsWith_def)
  then show "\<exists>j \<le> length s. startsWith (drop j s) p" by blast
next
  assume "\<exists>j \<le> length s. startsWith (drop j s) p"
  then obtain j b where "drop j s = p @ b" using startsWith_iff by blast
  then have "s = take j s @ p @ b" by (metis append_take_drop_id)
  then show "includesStr s p" using includesStr_iff by blast
qed



lemma rmatch_suffix:
  "(b', s', cs') \<in> set (rmatch r (b, s, cs)) \<Longrightarrow> \<exists>m. s = m @ s'"
proof (induction r arbitrary: b s cs b' s' cs')
  case Eps
  then show ?case by simp
next
  case (Lit c)
  then show ?case by (cases s) (auto split: if_splits)
next
  case (Cls k)
  then show ?case by (cases s) (auto split: if_splits)
next
  case (Seq r1 r2)
  from Seq.prems obtain b1 s1 cs1 where
    1: "(b1, s1, cs1) \<in> set (rmatch r1 (b, s, cs))" and
    2: "(b', s', cs') \<in> set (rmatch r2 (b1, s1, cs1))"
    by (auto simp: rmatch.simps)
  from Seq.IH(1)[OF 1] obtain m1 where "s = m1 @ s1" by blast
  moreover from Seq.IH(2)[OF 2] obtain m2 where "s1 = m2 @ s'" by blast
  ultimately have "s = (m1 @ m2) @ s'" by simp
  then show ?case by blast
next
  case (Alt r1 r2)
  then show ?case by auto
next
  case (Star k)
  then obtain i where "s' = drop i s" by (auto simp: rmatch.simps)
  then have "s = take i s @ s'" by simp
  then show ?case by blast
next
  case (Plus k)
  then obtain i where "s' = drop i s" by (auto simp: rmatch.simps)
  then have "s = take i s @ s'" by simp
  then show ?case by blast
next
  case (Opt r)
  then show ?case by auto
next
  case (Group n r)
  then show ?case by (auto simp: rmatch.simps)
next
  case Bol
  then show ?case by (auto split: if_splits)
next
  case Eol
  then show ?case by (auto split: if_splits)
qed

lemma execFrom_SomeD:
  "execFrom r i s = Some m \<Longrightarrow>
     \<exists>j b' s' cs'. j \<le> length s \<and> index m = i + j
        \<and> (b', s', cs') \<in> set (rmatch r (i + j = 0, drop j s, []))
        \<and> matched m = take (length (drop j s) - length s') (drop j s)
        \<and> captures m = cs'"
proof (induction s arbitrary: i)
  case Nil
  then obtain b' s' cs' xs where r: "rmatch r (i = 0, [], []) = (b', s', cs') # xs"
    and m: "m = \<lparr>index = i, matched = take (length ([]::string) - length s') [], captures = cs'\<rparr>"
    by (subst (asm) execFrom.simps) (auto split: list.splits)
  have "(0::nat) \<le> length ([]::string) \<and> index m = i + 0
        \<and> (b', s', cs') \<in> set (rmatch r (i + 0 = 0, drop 0 [], []))
        \<and> matched m = take (length (drop 0 ([]::string)) - length s') (drop 0 [])
        \<and> captures m = cs'"
    using r m by simp
  then show ?case by blast
next
  case (Cons c s)
  show ?case
  proof (cases "rmatch r (i = 0, c # s, [])")
    case Nil
    then have "execFrom r (Suc i) s = Some m"
      using Cons.prems by (subst (asm) execFrom.simps) simp
    from Cons.IH[OF this] obtain j b' s' cs' where
      "j \<le> length s" "index m = Suc i + j"
      "(b', s', cs') \<in> set (rmatch r (Suc i + j = 0, drop j s, []))"
      "matched m = take (length (drop j s) - length s') (drop j s)" "captures m = cs'"
      by blast
    then have "Suc j \<le> length (c # s) \<and> index m = i + Suc j
        \<and> (b', s', cs') \<in> set (rmatch r (i + Suc j = 0, drop (Suc j) (c # s), []))
        \<and> matched m = take (length (drop (Suc j) (c # s)) - length s') (drop (Suc j) (c # s))
        \<and> captures m = cs'"
      by simp
    then show ?thesis by blast
  next
    case (Cons x xs)
    obtain b' s' cs' where x: "x = (b', s', cs')" by (cases x)
    have "m = \<lparr>index = i, matched = take (length (c # s) - length s') (c # s), captures = cs'\<rparr>"
      using Cons.prems Cons x by (subst (asm) execFrom.simps) simp
    then have "0 \<le> length (c # s) \<and> index m = i + 0
        \<and> (b', s', cs') \<in> set (rmatch r (i + 0 = 0, drop 0 (c # s), []))
        \<and> matched m = take (length (drop 0 (c # s)) - length s') (drop 0 (c # s))
        \<and> captures m = cs'"
      using Cons x by simp
    then show ?thesis by blast
  qed
qed

lemma exec_SomeD:
  assumes "exec r s = Some m"
  shows "\<exists>b' s' cs'. index m \<le> length s
        \<and> (b', s', cs') \<in> set (rmatch r (index m = 0, drop (index m) s, []))
        \<and> drop (index m) s = matched m @ s'
        \<and> captures m = cs'"
proof -
  from execFrom_SomeD[OF assms[unfolded exec_def]] obtain j b' s' cs' where
    j: "j \<le> length s" "index m = j"
    and mem: "(b', s', cs') \<in> set (rmatch r (j = 0, drop j s, []))"
    and mt: "matched m = take (length (drop j s) - length s') (drop j s)"
    and cp: "captures m = cs'"
    by auto
  from rmatch_suffix[OF mem] obtain x where x: "drop j s = x @ s'" by blast
  then have "matched m = x" using mt by simp
  then show ?thesis using j mem x cp by auto
qed

lemma mem_rmatch_Star:
  "x \<in> set (rmatch (Star k) (b, s, cs)) \<longleftrightarrow>
     (\<exists>m s'. s = m @ s' \<and> (\<forall>c \<in> set m. inCls k c) \<and> x = (b \<and> m = [], s', cs))"
proof
  assume "x \<in> set (rmatch (Star k) (b, s, cs))"
  then obtain i where i: "i \<le> length (takeWhile (inCls k) s)" and x: "x = (b \<and> i = 0, drop i s, cs)"
    by (auto simp: rmatch.simps less_Suc_eq_le simp del: upt_Suc)
  have "take i s = take i (takeWhile (inCls k) s)"
    using i by (metis append_eq_conv_conj append_take_drop_id takeWhile_dropWhile_id take_append min.absorb2 length_take
        diff_is_0_eq take_0 append_Nil2)
  then have all: "\<forall>c \<in> set (take i s). inCls k c"
    by (metis in_set_takeD set_takeWhileD)
  have "i \<le> length s" using i by (meson le_trans length_takeWhile_le)
  then have "(take i s = []) = (i = 0)" by (cases s; cases i) auto
  then have "s = take i s @ drop i s \<and> (\<forall>c \<in> set (take i s). inCls k c)
      \<and> x = (b \<and> take i s = [], drop i s, cs)"
    using all x by simp
  then show "\<exists>m s'. s = m @ s' \<and> (\<forall>c \<in> set m. inCls k c) \<and> x = (b \<and> m = [], s', cs)"
    by blast
next
  assume "\<exists>m s'. s = m @ s' \<and> (\<forall>c \<in> set m. inCls k c) \<and> x = (b \<and> m = [], s', cs)"
  then obtain m s' where s: "s = m @ s'" and all: "\<forall>c \<in> set m. inCls k c"
      and x: "x = (b \<and> m = [], s', cs)" by blast
  have "takeWhile (inCls k) s = m @ takeWhile (inCls k) s'"
    using s all by (simp add: takeWhile_append2)
  then have "length m \<le> length (takeWhile (inCls k) s)" by simp
  moreover have "x = (b \<and> length m = 0, drop (length m) s, cs)" using x s by simp
  ultimately show "x \<in> set (rmatch (Star k) (b, s, cs))"
    by (auto simp: rmatch.simps image_iff intro!: bexI[of _ "length m"])
qed

lemma literalPattern_escapeRegExp: "literalPattern (escapeRegExp s) = lits s"
proof (induction s)
  case Nil
  then show ?case by (simp add: escapeRegExp_def)
next
  case (Cons c s)
  have e: "escapeRegExp (c # s) = (if regexSpecial c then [CHR 0x5C, c] else [c]) @ escapeRegExp s"
    by (simp add: escapeRegExp_def)
  show ?case
  proof (cases "regexSpecial c")
    case True
    then show ?thesis using Cons.IH e by simp
  next
    case False
    then have nb: "c \<noteq> CHR 0x5C" by (auto simp: regexSpecial_def)
    show ?thesis
    proof (cases "escapeRegExp s")
      case Nil
      then show ?thesis using False e Cons.IH by (cases s) auto
    next
      case (Cons d t)
      then show ?thesis using False e nb Cons.IH by simp
    qed
  qed
qed

lemma mem_rmatch_Group:
  "x \<in> set (rmatch (Group n r) (b, s, cs)) \<longleftrightarrow>
     (\<exists>b' s' cs'. (b', s', cs') \<in> set (rmatch r (b, s, cs))
        \<and> x = (b', s', (n, take (length s - length s') s) # cs'))"
  by (force simp: rmatch.simps image_iff)

lemma mem_rmatch_Seq:
  "x \<in> set (rmatch (Seq r1 r2) st) \<longleftrightarrow> (\<exists>y \<in> set (rmatch r1 st). x \<in> set (rmatch r2 y))"
  by (simp add: rmatch.simps)

lemma mem_rmatch_Eol_Eps:
  "x \<in> set (rmatch (Seq Eol Eps) (b, s, cs)) \<longleftrightarrow> s = [] \<and> x = (b, s, cs)"
  by (auto simp: rmatch.simps)

lemma ngroups_lits: "ngroups (lits s) = 0"
  by (induction s) auto

lemma rmatch_nogroup_captures:
  "ngroups r = 0 \<Longrightarrow> (b', s', cs') \<in> set (rmatch r (b, s, cs)) \<Longrightarrow> cs' = cs"
proof (induction r arbitrary: b s cs b' s' cs')
  case (Seq r1 r2)
  from Seq.prems(2) obtain b1 s1 cs1 where
    1: "(b1, s1, cs1) \<in> set (rmatch r1 (b, s, cs))" and
    2: "(b', s', cs') \<in> set (rmatch r2 (b1, s1, cs1))"
    unfolding mem_rmatch_Seq by auto
  have "cs1 = cs" using Seq.IH(1)[OF _ 1] Seq.prems(1) by simp
  moreover have "cs' = cs1" using Seq.IH(2)[OF _ 2] Seq.prems(1) by simp
  ultimately show ?case by simp
next
  case (Lit c)
  then show ?case by (cases s) (auto split: if_splits)
next
  case (Cls k)
  then show ?case by (cases s) (auto split: if_splits)
next
  case (Star k)
  then show ?case unfolding mem_rmatch_Star by auto
next
  case (Plus k)
  then show ?case by (auto simp: rmatch.simps)
qed (auto split: if_splits)

section \<open>isUnknownVersion\<close>

lemma rmatch_validVersionPattern:
  "rmatch validVersionPattern (b, s, []) \<noteq> [] \<longleftrightarrow>
     (b \<and> (operatorThenDigit s \<or> startsWithDigit s)) \<or> startsWith s ''*'' \<or> startsWith s ''latest''"
proof -
  have l: "rmatch (lits ''latest'') (b, s, []) \<noteq> [] \<longleftrightarrow> startsWith s ''latest''"
    by (subst rmatch_lits) simp
  have star: "rmatch (Lit CHR ''*'') (b, s, []) \<noteq> [] \<longleftrightarrow> startsWith s ''*''"
    by (cases s) (auto simp: startsWith_def)
  have d: "rmatch (Seq Bol (Cls Digit)) (b, s, []) \<noteq> [] \<longleftrightarrow> b \<and> startsWithDigit s"
    by (cases s) (auto simp: startsWithDigit_def rmatch.simps)
  have od: "rmatch (Seq Bol (Seq (Opt (Cls (Among ''^~>=<''))) (Cls Digit))) (b, s, []) \<noteq> []
       \<longleftrightarrow> b \<and> (operatorThenDigit s \<or> startsWithDigit s)"
  proof (cases s)
    case Nil
    then show ?thesis by (simp add: operatorThenDigit_def startsWithDigit_def rmatch.simps)
  next
    case (Cons x xs)
    then show ?thesis
      by (cases xs) (auto simp: operatorThenDigit_def startsWithDigit_def rmatch.simps)
  qed
  show ?thesis
    unfolding validVersionPattern_def rmatch.simps(5) append_is_Nil_conv de_Morgan_conj
    unfolding l star d od by blast
qed

lemma test_validVersionPattern:
  "test validVersionPattern s \<longleftrightarrow>
     operatorThenDigit s \<or> startsWithDigit s \<or> includesStr s ''*'' \<or> includesStr s ''latest''"
proof -
  have "test validVersionPattern s \<longleftrightarrow>
      (\<exists>j \<le> length s. (j = 0 \<and> (operatorThenDigit (drop j s) \<or> startsWithDigit (drop j s)))
          \<or> startsWith (drop j s) ''*'' \<or> startsWith (drop j s) ''latest'')"
    unfolding test_iff rmatch_validVersionPattern ..
  also have "\<dots> \<longleftrightarrow> (operatorThenDigit s \<or> startsWithDigit s)
       \<or> (\<exists>j \<le> length s. startsWith (drop j s) ''*'') \<or> (\<exists>j \<le> length s. startsWith (drop j s) ''latest'')"
    by auto
  finally show ?thesis unfolding includesStr_drop by blast
qed

lemma includes_unknown_eq:
  "(lower = ''unknown'' \<or> includesStr lower ''unknown'') = includesStr lower ''unknown''"
  by (cases lower) (auto simp: startsWith_def)

text \<open>
  Claim C4, as stated, fails: a string that starts with a range-operator character is unknown
  unless a digit follows the operator at once (or the string contains \<open>*\<close> or
  \<open>latest\<close>). \<open>^abc\<close> starts with \<open>^\<close>, holds no marker, and is unknown.
\<close>

theorem isUnknownVersion_operator_counterexample:
  "isUnknownVersion (Some ''^abc'') \<and> \<not> isUnknownVersion_spec (Some ''^abc'')"
  by code_simp

text \<open>
  Claim C4, amended: \<open>isUnknownVersion\<close> returns unknown for an absent or empty version;
  and for a version string that does not start with \<open>>=\<close> or \<open><=\<close> it returns
  unknown exactly when the lower-cased string contains \<open>unknown\<close> or
  \<open>not available\<close>, or equals \<open>pending\<close> or \<open>manualreviewrequired\<close>, or neither
  starts with a digit, nor starts with one of \<open>^ ~ > = <\<close> immediately followed by a digit,
  nor contains an asterisk, nor contains \<open>latest\<close>.
\<close>

theorem isUnknownVersion_characterisation:
  "isUnknownVersion None
   \<and> (\<not> startsWith (toLowerCase v) ''>='' \<and> \<not> startsWith (toLowerCase v) ''<='' \<longrightarrow>
        isUnknownVersion (Some v)
        = (v = [] \<or> hasMarker (toLowerCase v) \<or> \<not> validForm (toLowerCase v)))"
proof -
  have taut: "\<And>a u n p m t. (if a then True else if u then True else if n then True
        else if p then True else if m then True else \<not> t) = (a \<or> (u \<or> n \<or> p \<or> m) \<or> \<not> t)"
    by auto
  have "isUnknownVersion (Some v)
        = (v = [] \<or> hasMarker (toLowerCase v) \<or> \<not> validForm (toLowerCase v))"
    unfolding isUnknownVersion.simps Let_def includes_unknown_eq test_validVersionPattern
      hasMarker_def validForm_def taut
    by blast
  then show ?thesis by (simp add: isUnknownVersion.simps)
qed

lemma lower_caret_2: "toLowerCase ''^2.0.0'' = ''^2.0.0''"
  by code_simp

theorem isUnknownVersion_characterisation_witness:
  "\<not> startsWith (toLowerCase ''^2.0.0'') ''>='' \<and> \<not> startsWith (toLowerCase ''^2.0.0'') ''<=''
   \<and> \<not> isUnknownVersion (Some ''^2.0.0'')"
  using isUnknownVersion_characterisation[of "''^2.0.0''"]
  unfolding lower_caret_2
  by (simp add: startsWith_def hasMarker_def validForm_def operatorThenDigit_def isDigit_def)


text \<open>
  The code's own comment lists \<open>>=\<close> and \<open><=\<close> among the prefixes of a valid version, but
  the pattern allows one operator character only before the digit: a version with a
  two-character operator is classified as unknown, one with \<open>>\<close> or \<open><\<close> is not.
\<close>

lemma isUnknownVersion_two_character_operator:
  "isUnknownVersion (Some ''>=1.0.0'') \<and> isUnknownVersion (Some ''<=1.0.0'')
   \<and> \<not> isUnknownVersion (Some ''>1.0.0'') \<and> \<not> isUnknownVersion (Some ''<1.0.0'')"
  by code_simp

text \<open>The classifications that the specification lists as examples.\<close>

lemma classification_examples:
  "isUnknownVersion (Some ''unknown'') \<and> isUnknownVersion (Some ''Not Available'')
   \<and> isUnknownVersion (Some ''pending'') \<and> isUnknownVersion None
   \<and> isRemoveVersion (Some ''REMOVE'') \<and> isRemoveVersion (Some ''remove or replace'')
   \<and> \<not> isUnknownVersion (Some ''^2.0.0'') \<and> \<not> isUnknownVersion (Some ''latest'')
   \<and> \<not> isUnknownVersion (Some ''*'')
   \<and> \<not> isRemoveVersion (Some ''^2.0.0'') \<and> \<not> isRemoveVersion (Some ''latest'')
   \<and> \<not> isRemoveVersion (Some ''*'')"
  by code_simp

section \<open>formatVersion\<close>

lemma startsWith_operator:
  "(startsWith v ''^'' \<or> startsWith v ''~'' \<or> startsWith v ''>=''
      \<or> startsWith v ''>'' \<or> startsWith v ''<='' \<or> startsWith v ''<'')
   \<longleftrightarrow> (\<exists>c t. v = c # t \<and> isRangeOperator c)"
proof (cases v)
  case Nil
  then show ?thesis by (simp add: startsWith_def)
next
  case (Cons x xs)
  then show ?thesis
    by (cases xs) (auto simp: startsWith_def isRangeOperator_def)
qed

lemma formatVersion_unfold:
  "formatVersion v =
     (if v = [] then v
      else if (\<exists>c t. v = c # t \<and> isRangeOperator c) \<or> (\<exists>a b. v = a @ '' '' @ b)
              \<or> (\<exists>a b. v = a @ ''||'' @ b) then v
      else ''^'' @ v)"
proof -
  let ?A = "startsWith v ''^'' \<or> startsWith v ''~'' \<or> startsWith v ''>=''
      \<or> startsWith v ''>'' \<or> startsWith v ''<='' \<or> startsWith v ''<''"
  have "formatVersion v =
      (if v = [] then v else if ?A \<or> includesStr v '' '' \<or> includesStr v ''||'' then v else ''^'' @ v)"
    unfolding formatVersion_def by (intro if_cong refl) blast
  then show ?thesis
    unfolding startsWith_operator includesStr_iff .
qed

text \<open>
  Claim C5, as stated, fails: \<open>=\<close> is not among the prefixes that \<open>formatVersion\<close> keeps.
  The version \<open>=1.0.0\<close> starts with \<open>=\<close> and is returned as \<open>^=1.0.0\<close>.
\<close>

theorem formatVersion_equals_counterexample:
  "startsWith ''=1.0.0'' ''='' \<and> formatVersion ''=1.0.0'' = ''^=1.0.0''
   \<and> formatVersion ''=1.0.0'' \<noteq> ''=1.0.0''"
  by (simp add: formatVersion_def startsWith_def)

text \<open>
  Claim C5, amended: a version string that starts with one of the characters \<open>^ ~ > <\<close>, or
  contains a space, or contains \<open>||\<close>, is returned unchanged; every other non-empty version
  string is returned with \<open>^\<close> prepended; the empty string is returned unchanged.
\<close>

theorem formatVersion_cases:
  "((\<exists>c t. v = c # t \<and> isRangeOperator c) \<or> (\<exists>a b. v = a @ '' '' @ b) \<or> (\<exists>a b. v = a @ ''||'' @ b)
      \<longrightarrow> formatVersion v = v)
   \<and> (v \<noteq> [] \<and> \<not> ((\<exists>c t. v = c # t \<and> isRangeOperator c) \<or> (\<exists>a b. v = a @ '' '' @ b)
                    \<or> (\<exists>a b. v = a @ ''||'' @ b))
      \<longrightarrow> formatVersion v = ''^'' @ v)
   \<and> (v = [] \<longrightarrow> formatVersion v = v)"
  by (subst formatVersion_unfold, simp)+

theorem formatVersion_cases_witness:
  "((\<exists>c t. ''~4.17.0'' = c # t \<and> isRangeOperator c) \<and> formatVersion ''~4.17.0'' = ''~4.17.0'')
   \<and> (''4.17.0'' \<noteq> [] \<and> \<not> ((\<exists>c t. ''4.17.0'' = c # t \<and> isRangeOperator c)
          \<or> (\<exists>a b. ''4.17.0'' = a @ '' '' @ b) \<or> (\<exists>a b. ''4.17.0'' = a @ ''||'' @ b))
        \<and> formatVersion ''4.17.0'' = ''^4.17.0'')"
proof -
  have h1: "\<exists>c t. ''~4.17.0'' = c # t \<and> isRangeOperator c"
    by (simp add: isRangeOperator_def)
  have h2: "\<not> ((\<exists>c t. ''4.17.0'' = c # t \<and> isRangeOperator c)
          \<or> (\<exists>a b. ''4.17.0'' = a @ '' '' @ b) \<or> (\<exists>a b. ''4.17.0'' = a @ ''||'' @ b))"
    unfolding includesStr_iff[symmetric] by (simp add: isRangeOperator_def startsWith_def)
  show ?thesis
    using h1 h2 formatVersion_cases[of "''~4.17.0''"] formatVersion_cases[of "''4.17.0''"]
    by simp
qed

text \<open>The formatting examples of the specification.\<close>

lemma formatVersion_examples:
  "formatVersion ''4.17.0'' = ''^4.17.0'' \<and> formatVersion ''~4.17.0'' = ''~4.17.0''
   \<and> formatVersion ''>=4.17.0 <5.0.0'' = ''>=4.17.0 <5.0.0''"
  by code_simp

section \<open>getChanges\<close>

lemma sectionLoop_eq:
  "sectionLoop ty cur es acc = acc @ map (pushedChange ty cur) (filter (pushed cur) es)"
proof (induction es arbitrary: acc)
  case Nil
  then show ?case by simp
next
  case (Cons e es)
  obtain pkg v where e: "e = (pkg, v)" by (cases e)
  show ?case
    unfolding e using Cons.IH
    by (simp add: pushed_def actionable_def pushedChange_def split: option.splits)
qed

lemma getChanges_eq:
  "getChanges original sol =
     (case dependencies original of
        None \<Rightarrow> []
      | Some cur \<Rightarrow> map (pushedChange dependency cur) (filter (pushed cur) (sol_dependencies sol)))
     @ (case devDependencies original of
          None \<Rightarrow> []
        | Some cur \<Rightarrow>
            map (pushedChange devDependency cur) (filter (pushed cur) (sol_devDependencies sol)))"
  by (simp add: getChanges_def sectionLoop_eq Let_def split: option.splits)

lemma getProperty_own:
  "key \<notin> set objectPrototypeKeys \<Longrightarrow> getProperty cur key = map_option Str (cur key)"
  by (simp add: getProperty_def split: option.splits)

lemma pushed_own:
  assumes "\<forall>e \<in> set es. fst e \<notin> set objectPrototypeKeys"
  shows "map (pushedChange ty cur) (filter (pushed cur) es)
         = map (changeFor ty cur) (filter (emitted cur) es)"
proof -
  have f: "filter (pushed cur) es = filter (emitted cur) es"
    using assms
    by (intro filter_cong refl)
       (auto simp: pushed_def emitted_def getProperty_own split: option.splits)
  have "map (pushedChange ty cur) (filter (emitted cur) es)
        = map (changeFor ty cur) (filter (emitted cur) es)"
    using assms
    by (intro map_cong refl)
       (auto simp: pushedChange_def changeFor_def emitted_def getProperty_own split: option.splits)
  then show ?thesis using f by simp
qed

lemma actionable_1_0_0: "actionable ''1.0.0''"
  unfolding actionable_def by code_simp

text \<open>
  Claim C9, as stated, fails: a package declared with the empty string is declared in the
  section and its string differs from the proposed one, yet no Change is emitted for it.
\<close>

theorem getChanges_empty_declared_counterexample:
  "getChanges manifest_empty_version solution_a = [] \<and>
     sectionChanges emitted_spec dependency (dependencies manifest_empty_version)
       (sol_dependencies solution_a)
     @ sectionChanges emitted_spec devDependency (devDependencies manifest_empty_version)
         (sol_devDependencies solution_a)
     = [\<lparr>package = ''a'', from_version = Str '''', to_version = ''^1.0.0'', dtype = dependency\<rparr>]"
  using actionable_1_0_0
  by (simp add: getChanges_eq manifest_empty_version_def solution_a_def sectionChanges_def
      emitted_spec_def pushed_def getProperty_def changeFor_def formatVersion_def startsWith_def)

text \<open>
  Claim C9, amended: for every parsed manifest and every proposed solution none of whose
  packages is named like a member of \<open>Object.prototype\<close>, \<open>getChanges\<close> emits, per
  section and in the solution's iteration order, exactly the entries whose proposed version
  classifies as neither unknown nor removal-sentinel, whose package is declared in that
  section with a non-empty version string, and whose declared string differs from the
  proposed raw string; each Change has the declared string as its from-version and the
  formatted proposed version as its to-version.
\<close>

theorem getChanges_characterisation:
  assumes "\<forall>e \<in> set (sol_dependencies sol @ sol_devDependencies sol).
             fst e \<notin> set objectPrototypeKeys"
  shows "getChanges original sol =
     sectionChanges emitted dependency (dependencies original) (sol_dependencies sol)
     @ sectionChanges emitted devDependency (devDependencies original) (sol_devDependencies sol)"
proof -
  have d: "\<forall>e \<in> set (sol_dependencies sol). fst e \<notin> set objectPrototypeKeys"
    and v: "\<forall>e \<in> set (sol_devDependencies sol). fst e \<notin> set objectPrototypeKeys"
    using assms by auto
  show ?thesis
    unfolding getChanges_eq sectionChanges_def
    by (simp add: pushed_own[OF d] pushed_own[OF v] split: option.splits)
qed

theorem getChanges_characterisation_witness:
  "''a'' \<notin> set objectPrototypeKeys
   \<and> getChanges \<lparr>dependencies = Some [''a'' \<mapsto> ''0.9.0''], devDependencies = None\<rparr> solution_a
     = [\<lparr>package = ''a'', from_version = Str ''0.9.0'', to_version = ''^1.0.0'',
         dtype = dependency\<rparr>]"
proof -
  have k: "''a'' \<notin> set objectPrototypeKeys"
    by (simp add: objectPrototypeKeys_def)
  have h: "\<forall>e \<in> set (sol_dependencies solution_a @ sol_devDependencies solution_a).
             fst e \<notin> set objectPrototypeKeys"
    using k by (simp add: solution_a_def)
  show ?thesis
    using actionable_1_0_0 k
      getChanges_characterisation
        [OF h, of "\<lparr>dependencies = Some [''a'' \<mapsto> ''0.9.0''], devDependencies = None\<rparr>"]
    by (simp add: solution_a_def sectionChanges_def emitted_def changeFor_def formatVersion_def
        startsWith_def)
qed

text \<open>
  Why the amended claim leaves out the packages named like a member of
  \<open>Object.prototype\<close>: the guard reads \<open>section[pkg]\<close> with no own-property test, so for
  such a package that the manifest does not declare it reads the inherited member, and a
  Change is emitted whose from-version is that member.
\<close>

lemma getChanges_inherited_member:
  "getChanges \<lparr>dependencies = Some Map.empty, devDependencies = None\<rparr>
     \<lparr>sol_dependencies = [(''constructor'', ''1.0.0'')], sol_devDependencies = []\<rparr>
   = [\<lparr>package = ''constructor'', from_version = Inherited ''constructor'',
       to_version = ''^1.0.0'', dtype = dependency\<rparr>]"
  using actionable_1_0_0
  by (simp add: getChanges_eq pushed_def pushedChange_def getProperty_def objectPrototypeKeys_def
      formatVersion_def startsWith_def)

text \<open>
  Claim C10: \<open>getChanges\<close> emits no Change for a package whose declared version string in
  that section is the empty string, and no Change for any package of a section that is absent
  from the parsed manifest.
\<close>

theorem getChanges_skips_empty_and_absent:
  "(dependencies original = None \<longrightarrow>
      (\<forall>ch \<in> set (getChanges original sol). dtype ch \<noteq> dependency))
   \<and> (devDependencies original = None \<longrightarrow>
      (\<forall>ch \<in> set (getChanges original sol). dtype ch \<noteq> devDependency))
   \<and> (\<forall>cur. dependencies original = Some cur \<and> cur pkg = Some [] \<longrightarrow>
         (\<forall>ch \<in> set (getChanges original sol). \<not> (dtype ch = dependency \<and> package ch = pkg)))
   \<and> (\<forall>cur. devDependencies original = Some cur \<and> cur pkg = Some [] \<longrightarrow>
         (\<forall>ch \<in> set (getChanges original sol). \<not> (dtype ch = devDependency \<and> package ch = pkg)))"
  by (auto simp: getChanges_eq pushedChange_def pushed_def getProperty_def split: option.splits)

theorem getChanges_skips_empty_and_absent_witness:
  "devDependencies manifest_empty_version = None
   \<and> dependencies manifest_empty_version = Some [''a'' \<mapsto> '''']
   \<and> [''a'' \<mapsto> ''''] ''a'' = Some []
   \<and> \<not> (\<exists>ch \<in> set (getChanges manifest_empty_version solution_a). dtype ch = devDependency)
   \<and> \<not> (\<exists>ch \<in> set (getChanges manifest_empty_version solution_a).
         dtype ch = dependency \<and> package ch = ''a'')"
  using getChanges_skips_empty_and_absent[of manifest_empty_version solution_a "''a''"]
  by (simp add: manifest_empty_version_def)
section \<open>replaceVersionInSection\<close>

lemma scanBraces_gt: "scanBraces s i bc ins = Some e \<Longrightarrow> i < e \<and> e \<le> i + length s"
proof (induction s arbitrary: i bc ins)
  case Nil
  then show ?case by simp
next
  case (Cons c s)
  show ?case
  proof (cases "c = CHR ''}'' \<and> ins \<and> bc - 1 = 0")
    case True
    then show ?thesis using Cons.prems by auto
  next
    case False
    then obtain bc' ins' where "scanBraces s (Suc i) bc' ins' = Some e"
      using Cons.prems by (auto split: if_splits)
    from Cons.IH[OF this] show ?thesis by simp
  qed
qed

lemma sectionEndFrom_bounds:
  "start \<le> length content \<Longrightarrow>
     start \<le> sectionEndFrom content start \<and> sectionEndFrom content start \<le> length content"
  unfolding sectionEndFrom_def
  by (auto split: option.splits dest!: scanBraces_gt)

lemma getSubstitution_plain:
  "CHR ''$'' \<notin> set t \<Longrightarrow>
     getSubstitution m pre post cs k (t @ CHR ''$'' # r) = t @ getSubstitution m pre post cs k (CHR ''$'' # r)"
proof (induction t)
  case Nil
  then show ?case by simp
next
  case (Cons c t)
  then have c: "c \<noteq> CHR ''$''" by auto
  obtain d u where du: "t @ CHR ''$'' # r = d # u" by (cases t) auto
  have "getSubstitution m pre post cs k (c # d # u) = c # getSubstitution m pre post cs k (d # u)"
    using c by simp
  then show ?case using Cons du by simp
qed

lemma getSubstitution_version_template:
  assumes "CHR ''$'' \<notin> set to"
  shows "getSubstitution m pre post [(2, g2), (1, g1)] 2 (''$1'' @ to @ ''$2'') = g1 @ to @ g2"
proof -
  have d1: "isDigit CHR ''1''" "digitVal CHR ''1'' = 1" "isDigit CHR ''2''" "digitVal CHR ''2'' = 2"
    by (simp_all add: isDigit_def digitVal_def)
  have end2: "getSubstitution m pre post [(2, g2), (1, g1)] 2 ''$2'' = g2"
    using d1 by (simp add: capture_def)
  have rest: "getSubstitution m pre post [(2, g2), (1, g1)] 2 (to @ ''$2'') = to @ g2"
    using getSubstitution_plain[OF assms, of m pre post _ 2 "''2''"] end2 by simp
  obtain e u where eu: "to @ ''$2'' = e # u" by (cases to) auto
  have "getSubstitution m pre post [(2, g2), (1, g1)] 2 (CHR ''$'' # CHR ''1'' # e # u)
        = g1 @ getSubstitution m pre post [(2, g2), (1, g1)] 2 (e # u)"
    using d1 by (auto simp: capture_def)
  then show ?thesis using eu rest by simp
qed

lemma ngroups_packagePattern: "ngroups (packagePattern pkg frm) = 2"
  by (simp add: packagePattern_def literalPattern_escapeRegExp ngroups_lits)

lemma mem_rmatch_lits:
  "x \<in> set (rmatch (lits p) (b, s, cs)) \<longleftrightarrow> (\<exists>t. s = p @ t \<and> x = (b \<and> p = [], t, cs))"
  unfolding rmatch_lits startsWith_iff by auto

lemma splitLines_nonempty: "splitLines s \<noteq> []"
  by (induction s) (auto split: list.splits)

lemma splitLines_token_front:
  assumes "CHR 0x0A \<notin> set x"
  shows "\<exists>b ls. splitLines post = b # ls \<and> splitLines (x @ post) = (x @ b) # ls"
  using assms
proof (induction x)
  case Nil
  then show ?case using splitLines_nonempty[of post] by (cases "splitLines post") auto
next
  case (Cons c x)
  then obtain b ls where "splitLines post = b # ls" "splitLines (x @ post) = (x @ b) # ls"
    by auto
  moreover have "c \<noteq> CHR 0x0A" using Cons.prems by auto
  ultimately show ?case by simp
qed

lemma mem_Seq_Lit:
  "x \<in> set (rmatch (Seq (Lit c) r) (b, s, cs)) \<longleftrightarrow>
     (\<exists>t. s = c # t \<and> x \<in> set (rmatch r (False, t, cs)))"
  by (cases s) (auto simp: mem_rmatch_Seq)

lemma mem_Seq_lits:
  "x \<in> set (rmatch (Seq (lits p) r) (b, s, cs)) \<longleftrightarrow>
     (\<exists>t. s = p @ t \<and> x \<in> set (rmatch r (b \<and> p = [], t, cs)))"
  unfolding mem_rmatch_Seq Bex_def mem_rmatch_lits by auto

lemma mem_Seq_Star:
  "x \<in> set (rmatch (Seq (Star k) r) (b, s, cs)) \<longleftrightarrow>
     (\<exists>m t. s = m @ t \<and> (\<forall>c \<in> set m. inCls k c) \<and> x \<in> set (rmatch r (b \<and> m = [], t, cs)))"
  unfolding mem_rmatch_Seq Bex_def mem_rmatch_Star by auto

lemma mem_Seq_Group:
  "x \<in> set (rmatch (Seq (Group n r1) r2) (b, s, cs)) \<longleftrightarrow>
     (\<exists>b' s' cs'. (b', s', cs') \<in> set (rmatch r1 (b, s, cs))
        \<and> x \<in> set (rmatch r2 (b', s', (n, take (length s - length s') s) # cs')))"
  unfolding mem_rmatch_Seq Bex_def mem_rmatch_Group by auto

lemma mem_declarationHead:
  "x \<in> set (rmatch (seqs [Lit CHR 0x22, lits pkg, Lit CHR 0x22, Star Space, Lit CHR '':'',
                            Star Space, Lit CHR 0x22]) (b, s, cs)) \<longleftrightarrow>
     (\<exists>ws1 ws2 s'. s = declarationHead pkg ws1 ws2 @ s'
        \<and> (\<forall>c \<in> set (ws1 @ ws2). isWhiteSpace c) \<and> x = (False, s', cs))"
  (is "?L \<longleftrightarrow> ?R")
proof
  assume ?L
  then obtain m ma tf where
    "s = CHR 0x22 # pkg @ CHR 0x22 # m @ CHR '':'' # ma @ CHR 0x22 # tf"
    "\<forall>c \<in> set m. isWhiteSpace c" "\<forall>c \<in> set ma. isWhiteSpace c" "x = (False, tf, cs)"
    unfolding seqs.simps mem_Seq_Lit mem_Seq_lits mem_Seq_Star
    by (auto simp: rmatch.simps(1))
  then have "s = declarationHead pkg m ma @ tf \<and> (\<forall>c \<in> set (m @ ma). isWhiteSpace c)
      \<and> x = (False, tf, cs)"
    by (auto simp: declarationHead_def)
  then show ?R by blast
next
  assume ?R
  then obtain ws1 ws2 s' where r: "s = declarationHead pkg ws1 ws2 @ s'"
    "\<forall>c \<in> set (ws1 @ ws2). isWhiteSpace c" "x = (False, s', cs)" by blast
  have a: "CHR 0x22 # pkg @ CHR 0x22 # ws1 @ CHR '':'' # ws2 @ CHR 0x22 # s'
        = CHR 0x22 # (pkg @ (CHR 0x22 # (ws1 @ (CHR '':'' # (ws2 @ (CHR 0x22 # s'))))))"
    by simp
  show ?L
    unfolding seqs.simps mem_Seq_Lit mem_Seq_lits mem_Seq_Star
    apply (rule exI[of _ "pkg @ CHR 0x22 # ws1 @ CHR '':'' # ws2 @ CHR 0x22 # s'"])
    apply (rule conjI)
    subgoal using r(1) by (simp add: declarationHead_def)
    apply (rule exI[of _ "CHR 0x22 # ws1 @ CHR '':'' # ws2 @ CHR 0x22 # s'"])
    apply (rule conjI)
    subgoal by simp
    apply (rule exI[of _ "ws1 @ CHR '':'' # ws2 @ CHR 0x22 # s'"])
    apply (rule conjI)
    subgoal by simp
    apply (rule exI[of _ ws1])
    apply (rule exI[of _ "CHR '':'' # ws2 @ CHR 0x22 # s'"])
    apply (intro conjI)
    subgoal by simp
    subgoal using r(2) by simp
    apply (rule exI[of _ "ws2 @ CHR 0x22 # s'"])
    apply (rule conjI)
    subgoal by simp
    apply (rule exI[of _ ws2])
    apply (rule exI[of _ "CHR 0x22 # s'"])
    apply (intro conjI)
    subgoal by simp
    subgoal using r(2) by simp
    apply (rule exI[of _ s'])
    using r(3) by (simp add: rmatch.simps(1))
qed

lemma mem_packagePattern_iff:
  "(b', s', cs') \<in> set (rmatch (packagePattern pkg frm) (b, s, [])) \<longleftrightarrow>
     (\<exists>ws1 ws2. s = declarationHead pkg ws1 ws2 @ frm @ [CHR 0x22] @ s'
        \<and> (\<forall>c \<in> set (ws1 @ ws2). isWhiteSpace c)
        \<and> cs' = [(2, [CHR 0x22]), (1, declarationHead pkg ws1 ws2)] \<and> \<not> b')"
  (is "?L \<longleftrightarrow> ?R")
proof
  assume ?L
  then obtain b1 s1 cs1 t where
    g: "(b1, s1, cs1) \<in> set (rmatch (seqs [Lit CHR 0x22, lits pkg, Lit CHR 0x22, Star Space,
            Lit CHR '':'', Star Space, Lit CHR 0x22]) (b, s, []))" and
    t: "s1 = frm @ t" and
    x: "(b', s', cs') \<in> set (rmatch (Seq (Group 2 (Lit CHR 0x22)) Eps)
            (b1 \<and> frm = [], t, (1, take (length s - length s1) s) # cs1))"
    unfolding packagePattern_def literalPattern_escapeRegExp seqs.simps(2)[of "Group 1 _"]
      seqs.simps(2)[of "lits frm"] seqs.simps(2)[of "Group 2 _"] seqs.simps(1)
      mem_Seq_Group mem_Seq_lits
    by blast
  from g obtain ws1 ws2 where h: "s = declarationHead pkg ws1 ws2 @ s1"
    "\<forall>c \<in> set (ws1 @ ws2). isWhiteSpace c" "cs1 = []"
    unfolding mem_declarationHead by blast
  from x obtain b2 s2 cs2 where
    q: "(b2, s2, cs2) \<in> set (rmatch (Lit CHR 0x22) (b1 \<and> frm = [], t, (1, take (length s - length s1) s) # cs1))"
    and y: "(b', s', cs') = (b2, s2, (2, take (length t - length s2) t) # cs2)"
    unfolding mem_Seq_Group by (auto simp: rmatch.simps(1))
  from q have s2: "t = CHR 0x22 # s2" "cs2 = (1, take (length s - length s1) s) # cs1" "\<not> b2"
    by (cases t; auto split: if_splits)+
  have "take (length s - length s1) s = declarationHead pkg ws1 ws2" using h(1) by simp
  then show ?R using h t s2 y by auto
next
  assume ?R
  then obtain ws1 ws2 where r: "s = declarationHead pkg ws1 ws2 @ frm @ [CHR 0x22] @ s'"
    "\<forall>c \<in> set (ws1 @ ws2). isWhiteSpace c"
    "cs' = [(2, [CHR 0x22]), (1, declarationHead pkg ws1 ws2)]" "\<not> b'" by blast
  let ?s1 = "frm @ [CHR 0x22] @ s'"
  have g: "(False, ?s1, []) \<in> set (rmatch (seqs [Lit CHR 0x22, lits pkg, Lit CHR 0x22, Star Space,
            Lit CHR '':'', Star Space, Lit CHR 0x22]) (b, s, []))"
    unfolding mem_declarationHead using r(1,2) by blast
  have tk: "take (length s - length ?s1) s = declarationHead pkg ws1 ws2"
    using r(1) by simp
  have x: "(b', s', cs') \<in> set (rmatch (Seq (Group 2 (Lit CHR 0x22)) Eps)
            (False \<and> frm = [], [CHR 0x22] @ s', (1, take (length s - length ?s1) s) # []))"
    unfolding mem_Seq_Group tk using r(3,4) by (auto simp: rmatch.simps(1))
  show ?L
    unfolding packagePattern_def literalPattern_escapeRegExp seqs.simps(2)[of "Group 1 _"]
      seqs.simps(2)[of "lits frm"] seqs.simps(2)[of "Group 2 _"] seqs.simps(1)
    apply (subst mem_Seq_Group)
    apply (rule exI[of _ False], rule exI[of _ ?s1], rule exI[of _ "[]"])
    apply (rule conjI, rule g)
    apply (subst mem_Seq_lits)
    apply (rule exI[of _ "[CHR 0x22] @ s'"])
    apply (rule conjI, simp)
    apply (rule x)
    done
qed

lemma declaresAt_iff:
  "declaresAt pkg frm s \<longleftrightarrow> rmatch (packagePattern pkg frm) (b, s, []) \<noteq> []"
proof
  assume "declaresAt pkg frm s"
  then obtain ws1 ws2 rest where "s = declarationHead pkg ws1 ws2 @ frm @ [CHR 0x22] @ rest"
    "\<forall>c \<in> set (ws1 @ ws2). isWhiteSpace c"
    unfolding declaresAt_def by blast
  then have "(False, rest, [(2, [CHR 0x22]), (1, declarationHead pkg ws1 ws2)])
      \<in> set (rmatch (packagePattern pkg frm) (b, s, []))"
    unfolding mem_packagePattern_iff by blast
  then show "rmatch (packagePattern pkg frm) (b, s, []) \<noteq> []" by auto
next
  assume "rmatch (packagePattern pkg frm) (b, s, []) \<noteq> []"
  then obtain b' s' cs' xs where "rmatch (packagePattern pkg frm) (b, s, []) = (b', s', cs') # xs"
    by (metis neq_Nil_conv prod_cases3)
  then have "(b', s', cs') \<in> set (rmatch (packagePattern pkg frm) (b, s, []))"
    by simp
  then show "declaresAt pkg frm s"
    unfolding mem_packagePattern_iff declaresAt_def by blast
qed

lemma execFrom_least:
  "execFrom r i s = Some m \<Longrightarrow> j < index m - i \<Longrightarrow> rmatch r (i + j = 0, drop j s, []) = []"
proof (induction s arbitrary: i j)
  case Nil
  then have "index m = i"
    by (subst (asm) execFrom.simps) (auto split: list.splits)
  then show ?case using Nil.prems(2) by simp
next
  case (Cons c s)
  show ?case
  proof (cases "rmatch r (i = 0, c # s, [])")
    case Nil
    then have rec: "execFrom r (Suc i) s = Some m"
      using Cons.prems(1) by (subst (asm) execFrom.simps) simp
    show ?thesis
    proof (cases j)
      case 0
      then show ?thesis using Nil by simp
    next
      case (Suc j')
      then have "j' < index m - Suc i" using Cons.prems(2) by simp
      from Cons.IH[OF rec this] show ?thesis using Suc by simp
    qed
  next
    case (Cons x xs)
    then have "index m = i"
      using Cons.prems(1) by (subst (asm) execFrom.simps) (auto split: prod.splits)
    then show ?thesis using Cons.prems(2) by simp
  qed
qed

lemma exec_least:
  "exec r s = Some m \<Longrightarrow> j < index m \<Longrightarrow> rmatch r (j = 0, drop j s, []) = []"
  using execFrom_least[of r 0 s m j] by (simp add: exec_def)

lemma joinLines_Cons: "ls \<noteq> [] \<Longrightarrow> joinLines (l # ls) = l @ CHR 0x0A # joinLines ls"
  by (cases ls) simp_all

lemma joinLines_snoc:
  "joinLines (t @ [a]) = (if t = [] then a else joinLines t @ CHR 0x0A # a)"
proof (induction t)
  case Nil
  then show ?case by simp
next
  case (Cons l t)
  have "joinLines ((l # t) @ [a]) = l @ CHR 0x0A # joinLines (t @ [a])"
    using joinLines_Cons[of "t @ [a]" l] by simp
  then show ?case using Cons by (cases "t = []") (simp_all add: joinLines_Cons)
qed

lemma splitLines_no_newline: "l \<in> set (splitLines s) \<Longrightarrow> CHR 0x0A \<notin> set l"
proof (induction s arbitrary: l)
  case Nil
  then show ?case by simp
next
  case (Cons c s)
  obtain l0 ls where ls: "splitLines s = l0 # ls"
    using splitLines_nonempty[of s] by (cases "splitLines s") auto
  show ?case
  proof (cases "c = CHR 0x0A")
    case True
    then have "l = [] \<or> l \<in> set (splitLines s)" using Cons.prems by simp
    then show ?thesis using Cons.IH by auto
  next
    case False
    then have "l = c # l0 \<or> l \<in> set ls" using Cons.prems ls by simp
    then show ?thesis
    proof
      assume "l = c # l0"
      moreover have "CHR 0x0A \<notin> set l0" using Cons.IH[of l0] ls by simp
      ultimately show ?thesis using False by simp
    next
      assume "l \<in> set ls"
      then show ?thesis using Cons.IH[of l] ls by simp
    qed
  qed
qed

lemma splitLines_replace_at:
  assumes "CHR 0x0A \<notin> set x" and "CHR 0x0A \<notin> set y"
  shows "\<exists>k a b. k < length (splitLines (pre @ x @ post))
           \<and> joinLines (take k (splitLines (pre @ x @ post)) @ [a]) = pre
           \<and> splitLines (pre @ x @ post) ! k = a @ x @ b
           \<and> splitLines (pre @ y @ post) = (splitLines (pre @ x @ post))[k := a @ y @ b]"
proof (induction pre)
  case Nil
  obtain b ls where b: "splitLines post = b # ls" "splitLines (x @ post) = (x @ b) # ls"
    using splitLines_token_front[OF assms(1)] by blast
  obtain b' ls' where b': "splitLines post = b' # ls'" "splitLines (y @ post) = (y @ b') # ls'"
    using splitLines_token_front[OF assms(2)] by blast
  have "b' = b" "ls' = ls" using b(1) b'(1) by auto
  then have "0 < length (splitLines ([] @ x @ post))
           \<and> joinLines (take 0 (splitLines ([] @ x @ post)) @ [[]]) = []
           \<and> splitLines ([] @ x @ post) ! 0 = [] @ x @ b
           \<and> splitLines ([] @ y @ post) = (splitLines ([] @ x @ post))[0 := [] @ y @ b]"
    using b b' by simp
  then show ?case by blast
next
  case (Cons c pre)
  then obtain k a b where ih: "k < length (splitLines (pre @ x @ post))"
    "joinLines (take k (splitLines (pre @ x @ post)) @ [a]) = pre"
    "splitLines (pre @ x @ post) ! k = a @ x @ b"
    "splitLines (pre @ y @ post) = (splitLines (pre @ x @ post))[k := a @ y @ b]"
    by blast
  obtain l ls where l: "splitLines (pre @ x @ post) = l # ls"
    using splitLines_nonempty by (cases "splitLines (pre @ x @ post)") auto
  show ?case
  proof (cases "c = CHR 0x0A")
    case True
    have j: "joinLines (take (Suc k) (splitLines ((c # pre) @ x @ post)) @ [a]) = c # pre"
      using True ih(2) joinLines_Cons[of "take k (splitLines (pre @ x @ post)) @ [a]" "[]"]
      by simp
    have "Suc k < length (splitLines ((c # pre) @ x @ post))
           \<and> joinLines (take (Suc k) (splitLines ((c # pre) @ x @ post)) @ [a]) = c # pre
           \<and> splitLines ((c # pre) @ x @ post) ! Suc k = a @ x @ b
           \<and> splitLines ((c # pre) @ y @ post) = (splitLines ((c # pre) @ x @ post))[Suc k := a @ y @ b]"
      using True ih j by simp
    then show ?thesis by blast
  next
    case False
    show ?thesis
    proof (cases k)
      case 0
      then have la: "l = a @ x @ b" using ih(3) l by simp
      have ap: "a = pre" using ih(2) 0 by simp
      have "splitLines (pre @ y @ post) = (a @ y @ b) # ls" using ih(4) l 0 by simp
      then have "0 < length (splitLines ((c # pre) @ x @ post))
           \<and> joinLines (take 0 (splitLines ((c # pre) @ x @ post)) @ [c # a]) = c # pre
           \<and> splitLines ((c # pre) @ x @ post) ! 0 = (c # a) @ x @ b
           \<and> splitLines ((c # pre) @ y @ post) = (splitLines ((c # pre) @ x @ post))[0 := (c # a) @ y @ b]"
        using False l la ap by simp
      then show ?thesis by blast
    next
      case (Suc j)
      have jl: "joinLines (take k (splitLines ((c # pre) @ x @ post)) @ [a]) = c # pre"
      proof -
        have "take k (splitLines ((c # pre) @ x @ post)) @ [a] = (c # l) # (take j ls @ [a])"
          using False l Suc by simp
        then have "joinLines (take k (splitLines ((c # pre) @ x @ post)) @ [a])
            = (c # l) @ CHR 0x0A # joinLines (take j ls @ [a])"
          using joinLines_Cons[of "take j ls @ [a]" "c # l"] by simp
        moreover have "pre = l @ CHR 0x0A # joinLines (take j ls @ [a])"
          using ih(2) l Suc joinLines_Cons[of "take j ls @ [a]" l] by simp
        ultimately show ?thesis by simp
      qed
      have "splitLines (pre @ y @ post) = l # ls[j := a @ y @ b]" using ih(4) l Suc by simp
      then have "k < length (splitLines ((c # pre) @ x @ post))
           \<and> joinLines (take k (splitLines ((c # pre) @ x @ post)) @ [a]) = c # pre
           \<and> splitLines ((c # pre) @ x @ post) ! k = a @ x @ b
           \<and> splitLines ((c # pre) @ y @ post) = (splitLines ((c # pre) @ x @ post))[k := a @ y @ b]"
        using False l ih(1,3) Suc jl by simp
      then show ?thesis by blast
    qed
  qed
qed

lemma line_ends_with:
  assumes j: "joinLines (t @ [a]) = p @ h" and h: "CHR 0x0A \<notin> set h" and a: "CHR 0x0A \<notin> set a"
  shows "\<exists>a'. a = a' @ h"
proof -
  obtain J where J: "joinLines (t @ [a]) = J @ a" "J = [] \<or> (\<exists>J0. J = J0 @ [CHR 0x0A])"
  proof (cases "t = []")
    case True
    then have "joinLines (t @ [a]) = [] @ a" by simp
    then show ?thesis using that by blast
  next
    case False
    then have "joinLines (t @ [a]) = (joinLines t @ [CHR 0x0A]) @ a"
      by (simp add: joinLines_snoc)
    then show ?thesis using that by blast
  qed
  have "p @ h = J @ a" using j J(1) by simp
  then obtain us where us: "(p = J @ us \<and> us @ h = a) \<or> (p @ us = J \<and> h = us @ a)"
    unfolding append_eq_append_conv2 by blast
  then show ?thesis
  proof
    assume "p = J @ us \<and> us @ h = a"
    then show ?thesis by auto
  next
    assume c: "p @ us = J \<and> h = us @ a"
    show ?thesis
    proof (cases "us = []")
      case True
      then show ?thesis using c by simp
    next
      case False
      then have "J \<noteq> []" using c by auto
      then obtain J0 where "J = J0 @ [CHR 0x0A]" using J(2) by blast
      then have "p @ us = J0 @ [CHR 0x0A]" using c by simp
      then have "last us = CHR 0x0A" using False by (metis last_appendR last_snoc)
      then have "CHR 0x0A \<in> set us" using False by (metis last_in_set)
      then show ?thesis using c h by auto
    qed
  qed
qed

lemma declaresAt_Nil: "\<not> declaresAt pkg frm []"
  by (simp add: declaresAt_def declarationHead_def)

lemma startsSection_iff:
  "startsSection sec s \<longleftrightarrow> rmatch (sectionRegex sec) (b, s, []) \<noteq> []"
proof
  assume "startsSection sec s"
  then obtain ws1 ws2 rest where r: "s = sectionHeader sec @ ws1 @ '':'' @ ws2 @ ''{'' @ rest"
    "\<forall>c \<in> set (ws1 @ ws2). isWhiteSpace c"
    unfolding startsSection_def by blast
  have "(False, rest, []) \<in> set (rmatch (sectionRegex sec) (b, s, []))"
    unfolding sectionRegex_def seqs.simps mem_Seq_lits
    apply (rule exI[of _ "ws1 @ '':'' @ ws2 @ ''{'' @ rest"])
    apply (rule conjI)
    subgoal using r(1) by (simp add: sectionHeader_def)
    apply (subst mem_Seq_Star)
    apply (rule exI[of _ ws1], rule exI[of _ "'':'' @ ws2 @ ''{'' @ rest"])
    apply (intro conjI)
    subgoal by simp
    subgoal using r(2) by simp
    apply (subst mem_Seq_Lit)
    apply (rule exI[of _ "ws2 @ ''{'' @ rest"])
    apply (rule conjI)
    subgoal by simp
    apply (subst mem_Seq_Star)
    apply (rule exI[of _ ws2], rule exI[of _ "''{'' @ rest"])
    apply (intro conjI)
    subgoal by simp
    subgoal using r(2) by simp
    apply (subst mem_Seq_Lit)
    apply (rule exI[of _ rest])
    by (simp add: rmatch.simps(1))
  then show "rmatch (sectionRegex sec) (b, s, []) \<noteq> []" by auto
next
  assume "rmatch (sectionRegex sec) (b, s, []) \<noteq> []"
  then obtain b' s' cs' xs where "rmatch (sectionRegex sec) (b, s, []) = (b', s', cs') # xs"
    by (metis neq_Nil_conv prod_cases3)
  then have "(b', s', cs') \<in> set (rmatch (sectionRegex sec) (b, s, []))"
    by simp
  then obtain t m1 m2 where
    "s = (CHR 0x22 # sectionKey sec @ [CHR 0x22]) @ m1 @ CHR '':'' # m2 @ CHR ''{'' # t"
    "\<forall>c \<in> set m1. isWhiteSpace c" "\<forall>c \<in> set m2. isWhiteSpace c"
    unfolding sectionRegex_def seqs.simps mem_Seq_lits mem_Seq_Star mem_Seq_Lit
    by (auto simp: rmatch.simps(1))
  then have "s = sectionHeader sec @ m1 @ '':'' @ m2 @ ''{'' @ t
      \<and> (\<forall>c \<in> set (m1 @ m2). isWhiteSpace c)"
    by (auto simp: sectionHeader_def)
  then show "startsSection sec s" unfolding startsSection_def by blast
qed

lemma sectionSpan_SomeD:
  assumes "sectionSpan content sec = Some (start, endi)"
  shows "start \<le> endi \<and> endi \<le> length content
         \<and> startsSection sec (drop start content)
         \<and> (\<forall>i<start. \<not> startsSection sec (drop i content))"
proof -
  obtain sm where sm: "exec (sectionRegex sec) content = Some sm"
    and se: "start = index sm" "endi = sectionEndFrom content (index sm)"
    using assms unfolding sectionSpan_def by (auto split: option.splits)
  from exec_SomeD[OF sm] obtain b' s' cs' where
    i: "index sm \<le> length content" and
    mem: "(b', s', cs') \<in> set (rmatch (sectionRegex sec) (index sm = 0, drop (index sm) content, []))"
    by blast
  have b: "start \<le> endi" "endi \<le> length content"
    using sectionEndFrom_bounds[OF i] se by auto
  have "rmatch (sectionRegex sec) (index sm = 0, drop (index sm) content, []) \<noteq> []"
    using mem by auto
  then have st: "startsSection sec (drop start content)"
    using startsSection_iff[of sec "drop (index sm) content" "index sm = 0"] se by simp
  have "\<forall>i<start. \<not> startsSection sec (drop i content)"
  proof (intro allI impI)
    fix i assume "i < start"
    then have "rmatch (sectionRegex sec) (i = 0, drop i content, []) = []"
      using exec_least[OF sm, of i] se by simp
    then show "\<not> startsSection sec (drop i content)"
      using startsSection_iff[of sec "drop i content" "i = 0"] by simp
  qed
  then show ?thesis using b st by simp
qed

lemma sectionSpan_None_iff:
  "sectionSpan content sec = None \<longleftrightarrow> (\<forall>i. \<not> startsSection sec (drop i content))"
proof -
  have n: "\<not> startsSection sec []"
    by (simp add: startsSection_def sectionHeader_def)
  have "sectionSpan content sec = None \<longleftrightarrow> exec (sectionRegex sec) content = None"
    by (simp add: sectionSpan_def split: option.splits)
  also have "\<dots> \<longleftrightarrow> (\<forall>j \<le> length content. rmatch (sectionRegex sec) (0 + j = 0, drop j content, []) = [])"
    unfolding exec_def by (rule execFrom_None_iff)
  also have "\<dots> \<longleftrightarrow> (\<forall>j \<le> length content. \<not> startsSection sec (drop j content))"
    using startsSection_iff[of sec] by blast
  also have "\<dots> \<longleftrightarrow> (\<forall>i. \<not> startsSection sec (drop i content))"
  proof
    assume a: "\<forall>j \<le> length content. \<not> startsSection sec (drop j content)"
    show "\<forall>i. \<not> startsSection sec (drop i content)"
    proof
      fix i show "\<not> startsSection sec (drop i content)"
        using a n by (cases "i \<le> length content") auto
    qed
  next
    assume "\<forall>i. \<not> startsSection sec (drop i content)"
    then show "\<forall>j \<le> length content. \<not> startsSection sec (drop j content)" by blast
  qed
  finally show ?thesis .
qed

lemma closesAt_Cons:
  "closesAt (c # s) bc ins (Suc n) \<longleftrightarrow>
     closesAt s (if c = CHR ''{'' then bc + 1 else if c = CHR ''}'' then bc - 1 else bc)
       (ins \<or> c = CHR ''{'') n"
  by (auto simp: closesAt_def countChar_def)

lemma closesAt_0:
  "closesAt (c # s) bc ins 0 \<longleftrightarrow> c = CHR ''}'' \<and> ins \<and> bc - 1 = 0"
  by (auto simp: closesAt_def countChar_def)

lemma scanBraces_iff:
  "scanBraces s i bc ins = Some e \<longleftrightarrow>
     (\<exists>n. e = Suc (i + n) \<and> closesAt s bc ins n \<and> (\<forall>n'<n. \<not> closesAt s bc ins n'))"
proof (induction s arbitrary: i bc ins)
  case Nil
  then show ?case by (simp add: closesAt_def)
next
  case (Cons c s)
  show ?case
  proof (cases "c = CHR ''}'' \<and> ins \<and> bc - 1 = 0")
    case True
    then have l: "scanBraces (c # s) i bc ins = Some (Suc i)" by simp
    have z: "closesAt (c # s) bc ins 0" using True by (simp add: closesAt_0)
    have "(\<exists>n. e = Suc (i + n) \<and> closesAt (c # s) bc ins n
             \<and> (\<forall>n'<n. \<not> closesAt (c # s) bc ins n')) \<longleftrightarrow> e = Suc i"
    proof
      assume "\<exists>n. e = Suc (i + n) \<and> closesAt (c # s) bc ins n
             \<and> (\<forall>n'<n. \<not> closesAt (c # s) bc ins n')"
      then obtain n where n: "e = Suc (i + n)" "\<forall>n'<n. \<not> closesAt (c # s) bc ins n'" by blast
      have "n = 0" using n(2) z by (cases n) auto
      then show "e = Suc i" using n(1) by simp
    next
      assume "e = Suc i"
      then have "e = Suc (i + 0) \<and> closesAt (c # s) bc ins 0
             \<and> (\<forall>n'<0. \<not> closesAt (c # s) bc ins n')" using z by simp
      then show "\<exists>n. e = Suc (i + n) \<and> closesAt (c # s) bc ins n
             \<and> (\<forall>n'<n. \<not> closesAt (c # s) bc ins n')" by blast
    qed
    then show ?thesis using l by auto
  next
    case False
    let ?bc = "if c = CHR ''{'' then bc + 1 else if c = CHR ''}'' then bc - 1 else bc"
    let ?ins = "ins \<or> c = CHR ''{''"
    have l: "scanBraces (c # s) i bc ins = scanBraces s (Suc i) ?bc ?ins"
      using False by auto
    have z: "\<not> closesAt (c # s) bc ins 0" using False by (simp add: closesAt_0)
    have "(\<exists>n. e = Suc (i + n) \<and> closesAt (c # s) bc ins n
             \<and> (\<forall>n'<n. \<not> closesAt (c # s) bc ins n'))
       \<longleftrightarrow> (\<exists>n. e = Suc (Suc i + n) \<and> closesAt s ?bc ?ins n
             \<and> (\<forall>n'<n. \<not> closesAt s ?bc ?ins n'))" (is "?L \<longleftrightarrow> ?R")
    proof
      assume ?L
      then obtain n where n: "e = Suc (i + n)" "closesAt (c # s) bc ins n"
        "\<forall>n'<n. \<not> closesAt (c # s) bc ins n'" by blast
      obtain m where m: "n = Suc m" using n(2) z by (cases n) auto
      have "\<forall>n'<m. \<not> closesAt s ?bc ?ins n'"
      proof (intro allI impI)
        fix n' assume "n' < m"
        then have "\<not> closesAt (c # s) bc ins (Suc n')" using n(3) m by simp
        then show "\<not> closesAt s ?bc ?ins n'" unfolding closesAt_Cons .
      qed
      moreover have "closesAt (c # s) bc ins (Suc m)" using n(2) m by simp
      then have "closesAt s ?bc ?ins m" unfolding closesAt_Cons .
      ultimately have "e = Suc (Suc i + m) \<and> closesAt s ?bc ?ins m
             \<and> (\<forall>n'<m. \<not> closesAt s ?bc ?ins n')"
        using n(1) m by simp
      then show ?R by blast
    next
      assume ?R
      then obtain m where m: "e = Suc (Suc i + m)" "closesAt s ?bc ?ins m"
        "\<forall>n'<m. \<not> closesAt s ?bc ?ins n'" by blast
      have "\<forall>n'<Suc m. \<not> closesAt (c # s) bc ins n'"
        unfolding All_less_Suc2 closesAt_Cons using z m(3) by simp
      then have "e = Suc (i + Suc m) \<and> closesAt (c # s) bc ins (Suc m)
             \<and> (\<forall>n'<Suc m. \<not> closesAt (c # s) bc ins n')"
        using m(1,2) unfolding closesAt_Cons by simp
      then show ?L by blast
    qed
    then show ?thesis unfolding l Cons.IH by simp
  qed
qed

lemma sectionSpan_end:
  assumes "sectionSpan content sec = Some (start, endi)"
  shows "(endi = start \<and> (\<forall>n. \<not> closesAt (drop start content) 0 False n))
         \<or> (\<exists>n. endi = Suc (start + n) \<and> closesAt (drop start content) 0 False n
               \<and> (\<forall>n'<n. \<not> closesAt (drop start content) 0 False n'))"
proof -
  have e: "endi = sectionEndFrom content start"
    using assms unfolding sectionSpan_def by (auto split: option.splits)
  show ?thesis
  proof (cases "scanBraces (drop start content) start 0 False")
    case None
    have "\<forall>n. \<not> closesAt (drop start content) 0 False n"
    proof
      fix n
      show "\<not> closesAt (drop start content) 0 False n"
      proof (induction n rule: less_induct)
        case (less n)
        show ?case
        proof
          assume "closesAt (drop start content) 0 False n"
          then have "scanBraces (drop start content) start 0 False = Some (Suc (start + n))"
            unfolding scanBraces_iff using less.IH by blast
          then show False using None by simp
        qed
      qed
    qed
    then show ?thesis using e None by (simp add: sectionEndFrom_def)
  next
    case (Some x)
    then have "endi = x" using e by (simp add: sectionEndFrom_def)
    then show ?thesis using Some unfolding scanBraces_iff by blast
  qed
qed

text \<open>
  Claim C7, as stated, fails: the pattern lets whitespace, line breaks included, stand between
  the package name, the colon and the version string. When the version string is on a later
  line than the package name, the line that changes does not contain the package name.
\<close>

theorem replaceVersion_multiline_counterexample:
  \<open>replaceVersionInSection twoLineManifest Dependencies ''a'' ''1'' ''2''
     = (joinLines [''{"dependencies": {"a":'', ''"2"}}''], True)
   \<and> \<not> includesStr (splitLines twoLineManifest ! 1) ''a''
   \<and> splitLines twoLineManifest ! 1 \<noteq> splitLines (joinLines [''{"dependencies": {"a":'', ''"2"}}'']) ! 1\<close>
  by code_simp

text \<open>
  Claim C7, amended: for every manifest text and every single Change whose from-version and
  to-version hold no line break and whose to-version holds no \<open>$\<close>,
  \<open>replaceVersionInSection\<close> changes the text only at the first declaration of the
  targeted package with that from-version inside the targeted section: the quoted package
  name, whitespace, a colon, whitespace and the quoted from-version, at the leftmost position
  in the span from the first header of the section to the brace that closes it. There the
  from-version is replaced by the to-version. So every line other than the one line that
  holds that version string is byte-identical, and that line changes only in that token; it
  contains the quoted package name whenever the declaration holds no line break. Where the
  section header or such a declaration is missing, the text is returned as it is.
\<close>

theorem replaceVersion_preserves_other_lines:
  assumes d: "CHR ''$'' \<notin> set toVersion" and nt: "CHR 0x0A \<notin> set toVersion"
    and nf: "CHR 0x0A \<notin> set fromVersion"
  shows "case sectionSpan content sec of
           None \<Rightarrow>
             replaceVersionInSection content sec packageName fromVersion toVersion = (content, False)
         | Some (start, end) \<Rightarrow>
             if \<exists>i\<ge>start. declaresAt packageName fromVersion (drop i (take end content))
             then \<exists>pre ws1 ws2 post k a b.
                    content = pre @ declarationHead packageName ws1 ws2 @ fromVersion
                              @ [CHR 0x22] @ post
                  \<and> (\<forall>c \<in> set (ws1 @ ws2). isWhiteSpace c)
                  \<and> start \<le> length pre
                  \<and> length (pre @ declarationHead packageName ws1 ws2 @ fromVersion @ [CHR 0x22])
                      \<le> end
                  \<and> (\<forall>i. start \<le> i \<and> i < length pre \<longrightarrow>
                        \<not> declaresAt packageName fromVersion (drop i (take end content)))
                  \<and> replaceVersionInSection content sec packageName fromVersion toVersion
                      = (pre @ declarationHead packageName ws1 ws2 @ toVersion
                         @ [CHR 0x22] @ post, True)
                  \<and> k < length (splitLines content)
                  \<and> joinLines (take k (splitLines content) @ [a])
                      = pre @ declarationHead packageName ws1 ws2
                  \<and> splitLines content ! k = a @ fromVersion @ b
                  \<and> splitLines (pre @ declarationHead packageName ws1 ws2 @ toVersion
                                 @ [CHR 0x22] @ post)
                      = (splitLines content)[k := a @ toVersion @ b]
                  \<and> (CHR 0x0A \<notin> set (packageName @ ws1 @ ws2) \<longrightarrow>
                        (\<exists>a'. a = a' @ declarationHead packageName ws1 ws2))
             else replaceVersionInSection content sec packageName fromVersion toVersion
                    = (content, False)"
proof (cases "exec (sectionRegex sec) content")
  case None
  then show ?thesis
    by (simp add: sectionSpan_def replaceVersionInSection_def)
next
  case (Some sm)
  define start where "start = index sm"
  define endi where "endi = sectionEndFrom content start"
  define sc where "sc = substring content start endi"
  let ?pat = "packagePattern packageName fromVersion"
  have span: "sectionSpan content sec = Some (start, endi)"
    using Some by (simp add: sectionSpan_def start_def endi_def)
  have start: "start \<le> length content" using exec_SomeD[OF Some] start_def by blast
  have bounds: "start \<le> endi" "endi \<le> length content"
    using sectionEndFrom_bounds[OF start] endi_def by auto
  have sc: "sc = drop start (take endi content)"
    using bounds by (simp add: sc_def substring_def max_def min_def drop_take)
  have lsc: "length sc = endi - start" using bounds by (simp add: sc)
  have dropsc: "\<And>j. drop j sc = drop (start + j) (take endi content)"
    by (simp add: sc add.commute)
  have content: "content = take start content @ sc @ drop endi content"
  proof -
    have "take endi content = take start (take endi content) @ drop start (take endi content)"
      by (rule append_take_drop_id[symmetric])
    moreover have "take start (take endi content) = take start content"
      using bounds by (simp add: min_def)
    ultimately show ?thesis unfolding sc by (metis append_assoc append_take_drop_id)
  qed
  have rv: "replaceVersionInSection content sec packageName fromVersion toVersion =
      (case exec ?pat sc of
         None \<Rightarrow> (content, False)
       | Some m \<Rightarrow> (take start content @ replace ?pat sc (''$1'' @ toVersion @ ''$2'')
                     @ drop endi content, True))"
    using Some unfolding replaceVersionInSection_def Let_def start_def endi_def sc_def
    by (simp add: substring_def substringFrom_def split: option.splits)
  have occ: "(\<exists>i\<ge>start. declaresAt packageName fromVersion (drop i (take endi content)))
      \<longleftrightarrow> exec ?pat sc \<noteq> None" (is "?O \<longleftrightarrow> ?E")
  proof
    assume ?O
    then obtain i where i: "start \<le> i" "declaresAt packageName fromVersion (drop i (take endi content))"
      by blast
    have di: "drop (i - start) sc = drop i (take endi content)"
      using i(1) by (simp add: dropsc)
    have "i - start \<le> length sc"
    proof (rule ccontr)
      assume "\<not> i - start \<le> length sc"
      then have "drop (i - start) sc = []" by simp
      then show False using i(2) di declaresAt_Nil by simp
    qed
    moreover have "rmatch ?pat (0 + (i - start) = 0, drop (i - start) sc, []) \<noteq> []"
      using i(2) di declaresAt_iff[of packageName fromVersion "drop (i - start) sc"] by simp
    ultimately have "execFrom ?pat 0 sc \<noteq> None"
      using execFrom_None_iff[of ?pat 0 sc] by blast
    then show ?E by (simp add: exec_def)
  next
    assume ?E
    then have "\<not> (\<forall>j \<le> length sc. rmatch ?pat (0 + j = 0, drop j sc, []) = [])"
      using execFrom_None_iff[of ?pat 0 sc] by (simp add: exec_def)
    then obtain j where j: "j \<le> length sc" "rmatch ?pat (0 + j = 0, drop j sc, []) \<noteq> []"
      by blast
    then have "declaresAt packageName fromVersion (drop (start + j) (take endi content))"
      using declaresAt_iff[of packageName fromVersion "drop j sc"] dropsc by simp
    moreover have "start \<le> start + j" by simp
    ultimately show ?O by blast
  qed
  show ?thesis
  proof (cases "exec ?pat sc")
    case None
    then show ?thesis using span occ rv by simp
  next
    case (Some m)
    from exec_SomeD[OF Some] obtain b' s' cs' where
      i: "index m \<le> length sc" and
      mem: "(b', s', cs') \<in> set (rmatch ?pat (index m = 0, drop (index m) sc, []))" and
      dm: "drop (index m) sc = matched m @ s'" and cp: "captures m = cs'"
      by blast
    from mem obtain ws1 ws2 where
      g1: "drop (index m) sc = declarationHead packageName ws1 ws2 @ fromVersion @ [CHR 0x22] @ s'"
      and ws: "\<forall>c \<in> set (ws1 @ ws2). isWhiteSpace c"
      and cs': "cs' = [(2, [CHR 0x22]), (1, declarationHead packageName ws1 ws2)]"
      unfolding mem_packagePattern_iff by blast
    let ?head = "declarationHead packageName ws1 ws2"
    have mt: "matched m = ?head @ fromVersion @ [CHR 0x22]" using dm g1 by simp
    have after: "drop (index m + length (matched m)) sc = s'"
      using dm by (metis add.commute append_eq_conv_conj drop_drop)
    have sub: "getSubstitution (matched m) (take (index m) sc) s' (captures m) (ngroups ?pat)
                 (''$1'' @ toVersion @ ''$2'') = ?head @ toVersion @ [CHR 0x22]"
      unfolding cp cs' ngroups_packagePattern by (rule getSubstitution_version_template[OF d])
    have rep: "replace ?pat sc (''$1'' @ toVersion @ ''$2'')
               = take (index m) sc @ ?head @ toVersion @ [CHR 0x22] @ s'"
      unfolding replace_def Some using after sub by simp
    have sc': "sc = take (index m) sc @ ?head @ fromVersion @ [CHR 0x22] @ s'"
      using g1 by (metis append_take_drop_id)
    define pre where "pre = take start content @ take (index m) sc"
    define post where "post = s' @ drop endi content"
    have c1: "content = pre @ ?head @ fromVersion @ [CHR 0x22] @ post"
      unfolding pre_def post_def using content sc' by (metis append_assoc)
    have lpre: "length pre = start + index m"
      unfolding pre_def using start i by simp
    have c3: "start \<le> length pre" using lpre by simp
    have "index m + length (matched m) \<le> length sc"
    proof -
      have "length (drop (index m) sc) = length (matched m) + length s'" using dm by simp
      then show ?thesis using i by simp
    qed
    then have c4: "length (pre @ ?head @ fromVersion @ [CHR 0x22]) \<le> endi"
      using lpre lsc bounds mt by simp
    have c5: "\<forall>i. start \<le> i \<and> i < length pre \<longrightarrow>
                \<not> declaresAt packageName fromVersion (drop i (take endi content))"
    proof (intro allI impI)
      fix i assume a: "start \<le> i \<and> i < length pre"
      then have "i - start < index m" using lpre by arith
      from exec_least[OF Some this]
      have "\<not> declaresAt packageName fromVersion (drop (i - start) sc)"
        using declaresAt_iff[of packageName fromVersion "drop (i - start) sc" "i - start = 0"]
        by simp
      then show "\<not> declaresAt packageName fromVersion (drop i (take endi content))"
        using a by (simp add: dropsc)
    qed
    have c6: "replaceVersionInSection content sec packageName fromVersion toVersion
                = (pre @ ?head @ toVersion @ [CHR 0x22] @ post, True)"
      unfolding rv Some pre_def post_def using rep by simp
    obtain k a b where
      k: "k < length (splitLines ((pre @ ?head) @ fromVersion @ ([CHR 0x22] @ post)))"
      and ja: "joinLines (take k (splitLines ((pre @ ?head) @ fromVersion @ ([CHR 0x22] @ post))) @ [a])
                 = pre @ ?head"
      and lk: "splitLines ((pre @ ?head) @ fromVersion @ ([CHR 0x22] @ post)) ! k = a @ fromVersion @ b"
      and upd: "splitLines ((pre @ ?head) @ toVersion @ ([CHR 0x22] @ post))
                  = (splitLines ((pre @ ?head) @ fromVersion @ ([CHR 0x22] @ post)))[k := a @ toVersion @ b]"
      using splitLines_replace_at[OF nf nt, of "pre @ ?head" "[CHR 0x22] @ post"] by blast
    have ce: "(pre @ ?head) @ fromVersion @ ([CHR 0x22] @ post) = content"
      using c1 by simp
    have c7: "k < length (splitLines content)" using k unfolding ce .
    have c8: "joinLines (take k (splitLines content) @ [a]) = pre @ ?head" using ja unfolding ce .
    have c9: "splitLines content ! k = a @ fromVersion @ b" using lk unfolding ce .
    have c10: "splitLines (pre @ ?head @ toVersion @ [CHR 0x22] @ post)
                 = (splitLines content)[k := a @ toVersion @ b]"
      using upd unfolding ce by simp
    have c11: "CHR 0x0A \<notin> set (packageName @ ws1 @ ws2) \<longrightarrow> (\<exists>a'. a = a' @ ?head)"
    proof
      assume n: "CHR 0x0A \<notin> set (packageName @ ws1 @ ws2)"
      then have hn: "CHR 0x0A \<notin> set ?head" by (simp add: declarationHead_def)
      have "a @ fromVersion @ b \<in> set (splitLines content)" using c7 c9 by (metis nth_mem)
      then have "CHR 0x0A \<notin> set (a @ fromVersion @ b)" by (rule splitLines_no_newline)
      then have an: "CHR 0x0A \<notin> set a" by simp
      show "\<exists>a'. a = a' @ ?head" using line_ends_with[OF c8 hn an] .
    qed
    have ex: "\<exists>pre ws1 ws2 post k a b.
                    content = pre @ declarationHead packageName ws1 ws2 @ fromVersion
                              @ [CHR 0x22] @ post
                  \<and> (\<forall>c \<in> set (ws1 @ ws2). isWhiteSpace c)
                  \<and> start \<le> length pre
                  \<and> length (pre @ declarationHead packageName ws1 ws2 @ fromVersion @ [CHR 0x22])
                      \<le> endi
                  \<and> (\<forall>i. start \<le> i \<and> i < length pre \<longrightarrow>
                        \<not> declaresAt packageName fromVersion (drop i (take endi content)))
                  \<and> replaceVersionInSection content sec packageName fromVersion toVersion
                      = (pre @ declarationHead packageName ws1 ws2 @ toVersion
                         @ [CHR 0x22] @ post, True)
                  \<and> k < length (splitLines content)
                  \<and> joinLines (take k (splitLines content) @ [a])
                      = pre @ declarationHead packageName ws1 ws2
                  \<and> splitLines content ! k = a @ fromVersion @ b
                  \<and> splitLines (pre @ declarationHead packageName ws1 ws2 @ toVersion
                                 @ [CHR 0x22] @ post)
                      = (splitLines content)[k := a @ toVersion @ b]
                  \<and> (CHR 0x0A \<notin> set (packageName @ ws1 @ ws2) \<longrightarrow>
                        (\<exists>a'. a = a' @ declarationHead packageName ws1 ws2))"
      using c1 ws c3 c4 c5 c6 c7 c8 c9 c10 c11 by blast
    have "\<exists>i\<ge>start. declaresAt packageName fromVersion (drop i (take endi content))"
      using occ Some by simp
    then show ?thesis unfolding span using ex by simp
  qed
qed

theorem replaceVersion_preserves_other_lines_witness:
  \<open>CHR ''$'' \<notin> set ''2.0.0'' \<and> CHR 0x0A \<notin> set ''2.0.0'' \<and> CHR 0x0A \<notin> set ''1.0.0''
   \<and> sectionSpan manifest_same_version Dependencies = Some (44, 82)
   \<and> declaresAt ''a'' ''1.0.0'' (drop 66 (take 82 manifest_same_version))
   \<and> replaceVersionInSection manifest_same_version Dependencies ''a'' ''1.0.0'' ''2.0.0''
       = (joinLines
           [''{'',
            ''  "name": "demo",'',
            ''  "version": "1.0.0",'',
            ''  "dependencies": {'',
            ''    "a": "2.0.0"'',
            ''  }'',
            ''}''], True)
   \<and> (\<exists>pre ws1 ws2 post k a b.
          manifest_same_version = pre @ declarationHead ''a'' ws1 ws2 @ ''1.0.0'' @ [CHR 0x22] @ post
        \<and> (\<forall>c \<in> set (ws1 @ ws2). isWhiteSpace c)
        \<and> 44 \<le> length pre
        \<and> length (pre @ declarationHead ''a'' ws1 ws2 @ ''1.0.0'' @ [CHR 0x22]) \<le> 82
        \<and> (\<forall>i. 44 \<le> i \<and> i < length pre \<longrightarrow>
              \<not> declaresAt ''a'' ''1.0.0'' (drop i (take 82 manifest_same_version)))
        \<and> replaceVersionInSection manifest_same_version Dependencies ''a'' ''1.0.0'' ''2.0.0''
            = (pre @ declarationHead ''a'' ws1 ws2 @ ''2.0.0'' @ [CHR 0x22] @ post, True)
        \<and> k < length (splitLines manifest_same_version)
        \<and> joinLines (take k (splitLines manifest_same_version) @ [a])
            = pre @ declarationHead ''a'' ws1 ws2
        \<and> splitLines manifest_same_version ! k = a @ ''1.0.0'' @ b
        \<and> splitLines (pre @ declarationHead ''a'' ws1 ws2 @ ''2.0.0'' @ [CHR 0x22] @ post)
            = (splitLines manifest_same_version)[k := a @ ''2.0.0'' @ b]
        \<and> (CHR 0x0A \<notin> set (''a'' @ ws1 @ ws2) \<longrightarrow>
              (\<exists>a'. a = a' @ declarationHead ''a'' ws1 ws2)))
   \<and> sectionSpan manifest_same_version DevDependencies = None
   \<and> replaceVersionInSection manifest_same_version DevDependencies ''a'' ''1.0.0'' ''2.0.0''
       = (manifest_same_version, False)\<close>
proof -
  have h: \<open>CHR ''$'' \<notin> set ''2.0.0''\<close> \<open>CHR 0x0A \<notin> set ''2.0.0''\<close>
    \<open>CHR 0x0A \<notin> set ''1.0.0''\<close>
    by simp_all
  have sp: "sectionSpan manifest_same_version Dependencies = Some (44, 82)"
    by code_simp
  have sp2: "sectionSpan manifest_same_version DevDependencies = None"
    by code_simp
  have r: "rmatch (packagePattern ''a'' ''1.0.0'')
             (False, drop 66 (take 82 manifest_same_version), []) \<noteq> []"
    by code_simp
  have da: "declaresAt ''a'' ''1.0.0'' (drop 66 (take 82 manifest_same_version))"
    using r declaresAt_iff[of "''a''" "''1.0.0''" "drop 66 (take 82 manifest_same_version)" False]
    by simp
  have occ: "\<exists>i\<ge>44. declaresAt ''a'' ''1.0.0'' (drop i (take 82 manifest_same_version))"
    using da by (intro exI[of _ 66]) simp
  have e: \<open>replaceVersionInSection manifest_same_version Dependencies ''a'' ''1.0.0'' ''2.0.0''
       = (joinLines
           [''{'',
            ''  "name": "demo",'',
            ''  "version": "1.0.0",'',
            ''  "dependencies": {'',
            ''    "a": "2.0.0"'',
            ''  }'',
            ''}''], True)\<close>
    by code_simp
  note t1 = replaceVersion_preserves_other_lines
              [OF h, of manifest_same_version Dependencies "''a''", unfolded sp, simplified]
  note t2 = replaceVersion_preserves_other_lines
              [OF h, of manifest_same_version DevDependencies "''a''", unfolded sp2, simplified]
  have ex: "\<exists>pre ws1 ws2 post k a b.
          manifest_same_version = pre @ declarationHead ''a'' ws1 ws2 @ ''1.0.0'' @ [CHR 0x22] @ post
        \<and> (\<forall>c \<in> set (ws1 @ ws2). isWhiteSpace c)
        \<and> 44 \<le> length pre
        \<and> length (pre @ declarationHead ''a'' ws1 ws2 @ ''1.0.0'' @ [CHR 0x22]) \<le> 82
        \<and> (\<forall>i. 44 \<le> i \<and> i < length pre \<longrightarrow>
              \<not> declaresAt ''a'' ''1.0.0'' (drop i (take 82 manifest_same_version)))
        \<and> replaceVersionInSection manifest_same_version Dependencies ''a'' ''1.0.0'' ''2.0.0''
            = (pre @ declarationHead ''a'' ws1 ws2 @ ''2.0.0'' @ [CHR 0x22] @ post, True)
        \<and> k < length (splitLines manifest_same_version)
        \<and> joinLines (take k (splitLines manifest_same_version) @ [a])
            = pre @ declarationHead ''a'' ws1 ws2
        \<and> splitLines manifest_same_version ! k = a @ ''1.0.0'' @ b
        \<and> splitLines (pre @ declarationHead ''a'' ws1 ws2 @ ''2.0.0'' @ [CHR 0x22] @ post)
            = (splitLines manifest_same_version)[k := a @ ''2.0.0'' @ b]
        \<and> (CHR 0x0A \<notin> set (''a'' @ ws1 @ ws2) \<longrightarrow>
              (\<exists>a'. a = a' @ declarationHead ''a'' ws1 ws2))"
    using t1 occ by simp
  show ?thesis
    using h sp da e ex sp2 t2 by simp
qed

text \<open>
  Why the to-version must hold no \<open>$\<close>: it is spliced into the replacement string of
  \<open>String.replace\<close>, between \<open>$1\<close> and \<open>$2\<close>. A to-version that ends with \<open>$\<close> turns
  the \<open>$2\<close> after it into the text \<open>$2\<close>, and the closing quote is lost.
\<close>

lemma replaceVersion_dollar_example:
  \<open>replaceVersionInSection manifest_two_entries Dependencies ''lodash'' ''^4.17.0'' ''1.0$''
     = (joinLines
          [''{'',
           ''  "name": "demo",'',
           ''  "version": "1.0.0",'',
           ''  "dependencies": {'',
           ''    "lodash": "1.0$2,'',
           ''    "axios": "^0.21.0"'',
           ''  }'',
           ''}''], True)\<close>
  by code_simp

section \<open>removePackageFromSection\<close>

lemma trimEnd_decomp:
  "\<exists>w. l = trimEnd l @ w \<and> (\<forall>c \<in> set w. isWhiteSpace c)"
proof -
  have "rev l = takeWhile isWhiteSpace (rev l) @ dropWhile isWhiteSpace (rev l)" by simp
  then have "l = rev (dropWhile isWhiteSpace (rev l)) @ rev (takeWhile isWhiteSpace (rev l))"
    by (metis rev_append rev_rev_ident)
  moreover have "\<forall>c \<in> set (rev (takeWhile isWhiteSpace (rev l))). isWhiteSpace c"
    by (auto dest: set_takeWhileD)
  ultimately show ?thesis unfolding trimEnd_def by blast
qed

lemma endsWith_comma_decomp:
  assumes "endsWith (trimEnd l) '',''"
  shows "\<exists>a w. l = a @ '','' @ w \<and> (\<forall>c \<in> set w. isWhiteSpace c)"
proof -
  obtain w where w: "l = trimEnd l @ w" "\<forall>c \<in> set w. isWhiteSpace c"
    using trimEnd_decomp by blast
  have "drop (length (trimEnd l) - 1) (trimEnd l) = '',''"
    using assms by (simp add: endsWith_def)
  then have "trimEnd l = take (length (trimEnd l) - 1) (trimEnd l) @ '',''"
    by (metis append_take_drop_id)
  then have "l = take (length (trimEnd l) - 1) (trimEnd l) @ '','' @ w"
    using w(1) by (metis append_assoc)
  then show ?thesis using w(2) by blast
qed

lemma mem_group_spaces: "y \<in> set (rmatch (Group 1 (Star Space)) (False, xs, [])) \<longleftrightarrow>
      (\<exists>m t. xs = m @ t \<and> (\<forall>c \<in> set m. isWhiteSpace c) \<and> y = (False, t, [(1, m)]))"
    unfolding mem_rmatch_Group mem_rmatch_Star by auto

lemma mem_spaces_eol: "(b', s', cs') \<in> set (rmatch (Seq (Group 1 (Star Space)) (Seq Eol Eps)) (False, xs, []))
      \<longleftrightarrow> ((\<forall>c \<in> set xs. isWhiteSpace c) \<and> s' = [] \<and> cs' = [(1, xs)] \<and> \<not> b')"
    (is "?L \<longleftrightarrow> ?R")
  proof
    assume ?L
    then obtain y where y: "y \<in> set (rmatch (Group 1 (Star Space)) (False, xs, []))"
      and m: "(b', s', cs') \<in> set (rmatch (Seq Eol Eps) y)"
      unfolding mem_rmatch_Seq by blast
    from y obtain m t where mt: "xs = m @ t" "\<forall>c \<in> set m. isWhiteSpace c" "y = (False, t, [(1, m)])"
      using mem_group_spaces by blast
    from m have "t = [] \<and> (b', s', cs') = (False, t, [(1, m)])"
      unfolding mt(3) mem_rmatch_Eol_Eps .
    then show ?R using mt by simp
  next
    assume R: ?R
    then have "\<exists>m t. xs = m @ t \<and> (\<forall>c \<in> set m. isWhiteSpace c)
          \<and> (False, [], [(1, xs)]) = (False, t, [(1::nat, m)])"
      by simp
    then have "(False, [], [(1, xs)]) \<in> set (rmatch (Group 1 (Star Space)) (False, xs, []))"
      using mem_group_spaces by blast
    moreover have "(b', s', cs') \<in> set (rmatch (Seq Eol Eps) (False, [], [(1, xs)]))"
      unfolding mem_rmatch_Eol_Eps using R by simp
    ultimately show ?L
      unfolding mem_rmatch_Seq by blast
  qed

lemma mem_trailingCommaPattern:
  "(b', s', cs') \<in> set (rmatch trailingCommaPattern (b, s, [])) \<longleftrightarrow>
     (\<exists>w. s = CHR '','' # w \<and> (\<forall>c \<in> set w. isWhiteSpace c) \<and> s' = [] \<and> cs' = [(1, w)] \<and> \<not> b')"
proof (cases s)
  case Nil
  then show ?thesis by (simp add: trailingCommaPattern_def rmatch.simps)
next
  case (Cons x xs)
  show ?thesis
  proof (cases "x = CHR '',''")
    case True
    have "rmatch trailingCommaPattern (b, s, [])
        = rmatch (Seq (Group 1 (Star Space)) (Seq Eol Eps)) (False, xs, [])"
      unfolding trailingCommaPattern_def Cons True seqs.simps rmatch.simps(4)[of "Lit CHR '',''"]
      by simp
    then show ?thesis using mem_spaces_eol Cons True by simp
  next
    case False
    then show ?thesis
      unfolding trailingCommaPattern_def Cons seqs.simps rmatch.simps(4)[of "Lit CHR '',''"]
      by simp
  qed
qed

lemma ngroups_trailingCommaPattern: "ngroups trailingCommaPattern = 1"
  by (simp add: trailingCommaPattern_def)

lemma getSubstitution_dollar1:
  "getSubstitution m pre post [(1, w)] 1 ''$1'' = w"
  by (simp add: isDigit_def digitVal_def capture_def)

lemma strip_trailing_comma:
  assumes "endsWith (trimEnd l) '',''"
  shows "\<exists>a w. l = a @ '','' @ w \<and> (\<forall>c \<in> set w. isWhiteSpace c)
           \<and> replace trailingCommaPattern l ''$1'' = a @ w"
proof -
  obtain a0 w0 where l: "l = a0 @ '','' @ w0" and w0: "\<forall>c \<in> set w0. isWhiteSpace c"
    using endsWith_comma_decomp[OF assms] by blast
  have "(False, [], [(1, w0)]) \<in> set (rmatch trailingCommaPattern (length a0 = 0, drop (length a0) l, []))"
    using l w0 by (subst mem_trailingCommaPattern) simp
  then have "rmatch trailingCommaPattern (0 + length a0 = 0, drop (length a0) l, []) \<noteq> []"
    by auto
  moreover have "length a0 \<le> length l" using l by simp
  ultimately have "execFrom trailingCommaPattern 0 l \<noteq> None"
    using execFrom_None_iff[of trailingCommaPattern 0 l] by blast
  then obtain m where m: "exec trailingCommaPattern l = Some m"
    unfolding exec_def by blast
  from exec_SomeD[OF m] obtain b' s' cs' where
    i: "index m \<le> length l" and
    mem: "(b', s', cs') \<in> set (rmatch trailingCommaPattern (index m = 0, drop (index m) l, []))" and
    d: "drop (index m) l = matched m @ s'" and c: "captures m = cs'"
    by blast
  from mem obtain w where w: "drop (index m) l = CHR '','' # w" "\<forall>c \<in> set w. isWhiteSpace c"
    "s' = []" "cs' = [(1, w)]"
    by (subst (asm) mem_trailingCommaPattern) blast
  have mt: "matched m = CHR '','' # w" using d w by simp
  have l': "l = take (index m) l @ '','' @ w"
    using w(1) by (metis append_Cons append_Nil append_take_drop_id)
  have dr: "drop (index m + length (matched m)) l = []"
    using l' mt i by (metis add.commute append_Nil2 d drop_drop drop_eq_Nil order_refl w(3))
  have "getSubstitution (matched m) (take (index m) l) (drop (index m + length (matched m)) l)
          (captures m) (ngroups trailingCommaPattern) ''$1'' = w"
    unfolding c w(4) ngroups_trailingCommaPattern by (rule getSubstitution_dollar1)
  then have "replace trailingCommaPattern l ''$1'' = take (index m) l @ w"
    unfolding replace_def m using dr by simp
  then show ?thesis using l' w(2) by blast
qed

lemma findPackageLine_inSection:
  "findPackageLine sec pkg ls i True bc = Some (k, htc) \<longleftrightarrow>
     i \<le> k \<and> k - i < length ls \<and> test (removalPattern pkg) (ls ! (k - i))
     \<and> (\<forall>j<k - i. \<not> test (removalPattern pkg) (ls ! j)
            \<and> \<not> (0 < i + j \<and> bc + braceBalance (take (Suc j) ls) = 0))
     \<and> htc = endsWith (trimEnd (ls ! (k - i))) '',''"
proof (induction ls arbitrary: i bc)
  case Nil
  then show ?case by simp
next
  case (Cons l ls)
  let ?bc = "bc + lineBalance l"
  have step: "findPackageLine sec pkg (l # ls) i True bc =
      (if test (removalPattern pkg) l then Some (i, endsWith (trimEnd l) '','')
       else if ?bc = 0 \<and> i > 0 then None
       else findPackageLine sec pkg ls (Suc i) True ?bc)"
    by (simp add: Let_def lineBalance_def add_diff_eq)
  show ?case
  proof (cases "test (removalPattern pkg) l")
    case True
    show ?thesis
    proof (cases "k = i")
      case True
      then show ?thesis using \<open>test (removalPattern pkg) l\<close> step by auto
    next
      case False
      have "\<not> (i \<le> k \<and> (\<forall>j<k - i. \<not> test (removalPattern pkg) ((l # ls) ! j)))"
      proof
        assume a: "i \<le> k \<and> (\<forall>j<k - i. \<not> test (removalPattern pkg) ((l # ls) ! j))"
        then have "0 < k - i" using False by simp
        then have "\<not> test (removalPattern pkg) ((l # ls) ! 0)" using a by blast
        then show False using True by simp
      qed
      then show ?thesis using True step False by auto
    qed
  next
    case nt: False
    show ?thesis
    proof (cases "?bc = 0 \<and> i > 0")
      case True
      have "\<not> (i \<le> k \<and> k - i < length (l # ls) \<and> test (removalPattern pkg) ((l # ls) ! (k - i))
         \<and> (\<forall>j<k - i. \<not> (0 < i + j \<and> bc + braceBalance (take (Suc j) (l # ls)) = 0)))"
      proof
        assume a: "i \<le> k \<and> k - i < length (l # ls) \<and> test (removalPattern pkg) ((l # ls) ! (k - i))
         \<and> (\<forall>j<k - i. \<not> (0 < i + j \<and> bc + braceBalance (take (Suc j) (l # ls)) = 0))"
        have "k - i \<noteq> 0" using a nt by (cases "k - i") auto
        then have "\<not> (0 < i + 0 \<and> bc + braceBalance (take (Suc 0) (l # ls)) = 0)"
          using a by blast
        then show False using True by (simp add: braceBalance_def)
      qed
      then show ?thesis using nt True step by auto
    next
      case False
      have rec: "findPackageLine sec pkg (l # ls) i True bc = findPackageLine sec pkg ls (Suc i) True ?bc"
        using step nt False by simp
      show ?thesis
      proof (cases "i < k")
        case False
        then have "k - i = 0" by simp
        then show ?thesis unfolding rec Cons.IH using nt False by auto
      next
        case True
        then obtain n where n: "k - i = Suc n" "k - Suc i = n" by (cases "k - i") auto
        have b0: "\<not> (0 < i + 0 \<and> bc + braceBalance (take (Suc 0) (l # ls)) = 0)"
          using False by (auto simp: braceBalance_def)
        have bs: "\<And>j. bc + braceBalance (take (Suc (Suc j)) (l # ls)) = ?bc + braceBalance (take (Suc j) ls)"
          by (simp add: braceBalance_def)
        show ?thesis
          unfolding rec Cons.IH n All_less_Suc2
          using True nt b0 bs by auto
      qed
    qed
  qed
qed


lemma findPackageLine_header:
  "includesStr l (sectionHeader sec) \<Longrightarrow>
     findPackageLine sec pkg (l # ls) i ins bc = findPackageLine sec pkg (l # ls) i True bc"
  by (simp add: sectionHeader_def)

lemma findPackageLine_beforeSection:
  "findPackageLine sec pkg ls i False bc = Some (k, htc) \<longleftrightarrow>
     (\<exists>h<length ls. includesStr (ls ! h) (sectionHeader sec)
        \<and> (\<forall>j<h. \<not> includesStr (ls ! j) (sectionHeader sec))
        \<and> findPackageLine sec pkg (drop h ls) (i + h) True bc = Some (k, htc))"
proof (induction ls arbitrary: i)
  case Nil
  then show ?case by simp
next
  case (Cons l ls)
  show ?case
  proof (cases "includesStr l (sectionHeader sec)")
    case True
    have "(\<exists>h<length (l # ls). includesStr ((l # ls) ! h) (sectionHeader sec)
        \<and> (\<forall>j<h. \<not> includesStr ((l # ls) ! j) (sectionHeader sec))
        \<and> findPackageLine sec pkg (drop h (l # ls)) (i + h) True bc = Some (k, htc))
      \<longleftrightarrow> findPackageLine sec pkg (l # ls) i True bc = Some (k, htc)" (is "?L \<longleftrightarrow> ?R")
    proof
      assume ?L
      then obtain h where h: "h < length (l # ls)"
        "\<forall>j<h. \<not> includesStr ((l # ls) ! j) (sectionHeader sec)"
        "findPackageLine sec pkg (drop h (l # ls)) (i + h) True bc = Some (k, htc)" by blast
      have "h = 0"
      proof (rule ccontr)
        assume "h \<noteq> 0"
        then have "\<not> includesStr ((l # ls) ! 0) (sectionHeader sec)" using h(2) by blast
        then show False using True by simp
      qed
      then show ?R using h(3) by simp
    next
      assume ?R
      then have "0 < length (l # ls) \<and> includesStr ((l # ls) ! 0) (sectionHeader sec)
        \<and> (\<forall>j<0. \<not> includesStr ((l # ls) ! j) (sectionHeader sec))
        \<and> findPackageLine sec pkg (drop 0 (l # ls)) (i + 0) True bc = Some (k, htc)"
        using True by simp
      then show ?L by blast
    qed
    then show ?thesis using findPackageLine_header[OF True, of pkg ls i False bc] by simp
  next
    case False
    have rec: "findPackageLine sec pkg (l # ls) i False bc = findPackageLine sec pkg ls (Suc i) False bc"
      using False by (simp add: sectionHeader_def)
    have "(\<exists>h<length (l # ls). includesStr ((l # ls) ! h) (sectionHeader sec)
        \<and> (\<forall>j<h. \<not> includesStr ((l # ls) ! j) (sectionHeader sec))
        \<and> findPackageLine sec pkg (drop h (l # ls)) (i + h) True bc = Some (k, htc))
      \<longleftrightarrow> (\<exists>h<length ls. includesStr (ls ! h) (sectionHeader sec)
        \<and> (\<forall>j<h. \<not> includesStr (ls ! j) (sectionHeader sec))
        \<and> findPackageLine sec pkg (drop h ls) (Suc i + h) True bc = Some (k, htc))"
      (is "?L \<longleftrightarrow> ?R")
    proof
      assume ?L
      then obtain h where h: "h < length (l # ls)" "includesStr ((l # ls) ! h) (sectionHeader sec)"
        "\<forall>j<h. \<not> includesStr ((l # ls) ! j) (sectionHeader sec)"
        "findPackageLine sec pkg (drop h (l # ls)) (i + h) True bc = Some (k, htc)" by blast
      obtain h' where h': "h = Suc h'" using h(2) False by (cases h) auto
      have "\<forall>j<h'. \<not> includesStr (ls ! j) (sectionHeader sec)"
      proof (intro allI impI)
        fix j assume "j < h'"
        then have "Suc j < h" using h' by simp
        then have "\<not> includesStr ((l # ls) ! Suc j) (sectionHeader sec)" using h(3) by blast
        then show "\<not> includesStr (ls ! j) (sectionHeader sec)" by simp
      qed
      then have "h' < length ls \<and> includesStr (ls ! h') (sectionHeader sec)
        \<and> (\<forall>j<h'. \<not> includesStr (ls ! j) (sectionHeader sec))
        \<and> findPackageLine sec pkg (drop h' ls) (Suc i + h') True bc = Some (k, htc)"
        using h h' by simp
      then show ?R by blast
    next
      assume ?R
      then obtain h where h: "h < length ls" "includesStr (ls ! h) (sectionHeader sec)"
        "\<forall>j<h. \<not> includesStr (ls ! j) (sectionHeader sec)"
        "findPackageLine sec pkg (drop h ls) (Suc i + h) True bc = Some (k, htc)" by blast
      have "\<forall>j<Suc h. \<not> includesStr ((l # ls) ! j) (sectionHeader sec)"
        unfolding All_less_Suc2 using False h(3) by simp
      then have "Suc h < length (l # ls) \<and> includesStr ((l # ls) ! Suc h) (sectionHeader sec)
        \<and> (\<forall>j<Suc h. \<not> includesStr ((l # ls) ! j) (sectionHeader sec))
        \<and> findPackageLine sec pkg (drop (Suc h) (l # ls)) (i + Suc h) True bc = Some (k, htc)"
        using h by simp
      then show ?L by blast
    qed
    then show ?thesis unfolding rec Cons.IH by simp
  qed
qed

lemma findPackageLine_iff:
  "findPackageLine sec pkg ls 0 False 0 = Some (k, htc) \<longleftrightarrow>
     isPackageLine sec pkg ls k \<and> htc = endsWith (trimEnd (ls ! k)) '',''"
proof -
  have conv: "\<And>h. h \<le> k \<Longrightarrow> k < length ls \<Longrightarrow>
      (\<forall>j<k - h. \<not> test (removalPattern pkg) (drop h ls ! j)
            \<and> \<not> (0 < h + j \<and> 0 + braceBalance (take (Suc j) (drop h ls)) = 0))
      \<longleftrightarrow> (\<forall>j. h \<le> j \<and> j < k \<longrightarrow>
                 \<not> test (removalPattern pkg) (ls ! j)
                 \<and> \<not> (0 < j \<and> braceBalance (take (Suc j - h) (drop h ls)) = 0))"
  proof -
    fix h assume hk: "h \<le> k" "k < length ls"
    show "(\<forall>j<k - h. \<not> test (removalPattern pkg) (drop h ls ! j)
            \<and> \<not> (0 < h + j \<and> 0 + braceBalance (take (Suc j) (drop h ls)) = 0))
      \<longleftrightarrow> (\<forall>j. h \<le> j \<and> j < k \<longrightarrow>
                 \<not> test (removalPattern pkg) (ls ! j)
                 \<and> \<not> (0 < j \<and> braceBalance (take (Suc j - h) (drop h ls)) = 0))"
      (is "?L \<longleftrightarrow> ?R")
    proof
      assume L: ?L
      show ?R
      proof (intro allI impI)
        fix j assume j: "h \<le> j \<and> j < k"
        then have "j - h < k - h" by arith
        from L[rule_format, OF this] show "\<not> test (removalPattern pkg) (ls ! j)
                 \<and> \<not> (0 < j \<and> braceBalance (take (Suc j - h) (drop h ls)) = 0)"
          using j hk by (simp add: Suc_diff_le)
      qed
    next
      assume R: ?R
      show ?L
      proof (intro allI impI)
        fix j assume j: "j < k - h"
        then have "h \<le> h + j \<and> h + j < k" by arith
        from R[rule_format, OF this] show "\<not> test (removalPattern pkg) (drop h ls ! j)
            \<and> \<not> (0 < h + j \<and> 0 + braceBalance (take (Suc j) (drop h ls)) = 0)"
          using j hk by simp
      qed
    qed
  qed
  show ?thesis (is "?A \<longleftrightarrow> ?B")
  proof
    assume ?A
    then obtain h where h: "h < length ls" "includesStr (ls ! h) (sectionHeader sec)"
      "\<forall>j<h. \<not> includesStr (ls ! j) (sectionHeader sec)"
      "findPackageLine sec pkg (drop h ls) (0 + h) True 0 = Some (k, htc)"
      unfolding findPackageLine_beforeSection by blast
    from h(4)[unfolded findPackageLine_inSection] have a: "h \<le> k" "k - h < length (drop h ls)"
      "test (removalPattern pkg) (drop h ls ! (k - h))"
      "\<forall>j<k - h. \<not> test (removalPattern pkg) (drop h ls ! j)
            \<and> \<not> (0 < 0 + h + j \<and> 0 + braceBalance (take (Suc j) (drop h ls)) = 0)"
      "htc = endsWith (trimEnd (drop h ls ! (k - h))) '',''" by auto
    have k: "k < length ls" using a(1,2) by simp
    have nth: "drop h ls ! (k - h) = ls ! k" using a(1) k by simp
    have "\<forall>j. h \<le> j \<and> j < k \<longrightarrow>
                 \<not> test (removalPattern pkg) (ls ! j)
                 \<and> \<not> (0 < j \<and> braceBalance (take (Suc j - h) (drop h ls)) = 0)"
      using a(4) conv[OF a(1) k] by simp
    then show ?B unfolding isPackageLine_def using k a(1,3,5) nth h(2,3) by auto
  next
    assume B: ?B
    then obtain h where h: "k < length ls" "test (removalPattern pkg) (ls ! k)" "h \<le> k"
      "includesStr (ls ! h) (sectionHeader sec)"
      "\<forall>j<h. \<not> includesStr (ls ! j) (sectionHeader sec)"
      "\<forall>j. h \<le> j \<and> j < k \<longrightarrow>
                 \<not> test (removalPattern pkg) (ls ! j)
                 \<and> \<not> (0 < j \<and> braceBalance (take (Suc j - h) (drop h ls)) = 0)"
      unfolding isPackageLine_def by blast
    have nth: "drop h ls ! (k - h) = ls ! k" using h(1,3) by simp
    have "\<forall>j<k - h. \<not> test (removalPattern pkg) (drop h ls ! j)
            \<and> \<not> (0 < 0 + h + j \<and> 0 + braceBalance (take (Suc j) (drop h ls)) = 0)"
      using h(6) conv[OF h(3) h(1)] by simp
    then have "findPackageLine sec pkg (drop h ls) (0 + h) True 0 = Some (k, htc)"
      unfolding findPackageLine_inSection using h(1,2,3) nth B by auto
    moreover have "h < length ls" using h(1,3) by simp
    ultimately show ?A unfolding findPackageLine_beforeSection using h(4,5) by blast
  qed
qed

text \<open>
  Claim C6. Let line \<open>k\<close> be the package's line in the section (\<open>isPackageLine\<close>).
  When that line has a trailing comma (it is not the last entry),
  \<open>removePackageFromSection\<close> deletes it and leaves every other line, and so every
  other comma, as it is. When it has no trailing comma (it is the last entry) and the line
  before it ends with a comma, trailing whitespace apart, the line is deleted, that comma is
  stripped from the line before, and nothing else changes. In the remaining case the line is
  deleted and nothing else changes. When the section has no line of the package, the text is
  returned as it is.
\<close>

theorem removePackage_comma_repair:
  "(\<not> (\<exists>k. isPackageLine sec pkg (splitLines content) k) \<longrightarrow>
      removePackageFromSection content sec pkg = (content, False))
   \<and> (\<forall>k. isPackageLine sec pkg (splitLines content) k \<longrightarrow>
        (endsWith (trimEnd (splitLines content ! k)) '','' \<longrightarrow>
           removePackageFromSection content sec pkg
           = (joinLines (take k (splitLines content) @ drop (Suc k) (splitLines content)), True))
      \<and> (\<not> endsWith (trimEnd (splitLines content ! k)) '','' \<and> 0 < k
            \<and> endsWith (trimEnd (splitLines content ! (k - 1))) '','' \<longrightarrow>
           (\<exists>a w. splitLines content ! (k - 1) = a @ '','' @ w \<and> (\<forall>c \<in> set w. isWhiteSpace c)
              \<and> removePackageFromSection content sec pkg
                = (joinLines (take (k - 1) (splitLines content) @ [a @ w]
                              @ drop (Suc k) (splitLines content)), True)))
      \<and> (\<not> endsWith (trimEnd (splitLines content ! k)) '',''
            \<and> \<not> (0 < k \<and> endsWith (trimEnd (splitLines content ! (k - 1))) '','') \<longrightarrow>
           removePackageFromSection content sec pkg
           = (joinLines (take k (splitLines content) @ drop (Suc k) (splitLines content)), True)))"
proof (intro conjI allI impI)
  let ?ls = "splitLines content"
  assume "\<not> (\<exists>k. isPackageLine sec pkg ?ls k)"
  then have "findPackageLine sec pkg ?ls 0 False 0 = None"
    using findPackageLine_iff[of sec pkg ?ls]
    by (cases "findPackageLine sec pkg ?ls 0 False 0") auto
  then show "removePackageFromSection content sec pkg = (content, False)"
    unfolding removePackageFromSection_def Let_def by simp
next
  let ?ls = "splitLines content"
  fix k
  assume p: "isPackageLine sec pkg ?ls k"
  then have f: "findPackageLine sec pkg ?ls 0 False 0 = Some (k, endsWith (trimEnd (?ls ! k)) '','')"
    using findPackageLine_iff[of sec pkg ?ls k] by simp
  have k: "k < length ?ls" using p unfolding isPackageLine_def by simp
  let ?ls1 = "take k ?ls @ drop (Suc k) ?ls"
  have res: "removePackageFromSection content sec pkg = (joinLines
      (if \<not> endsWith (trimEnd (?ls ! k)) '','' \<and> k > 0 then
         (if endsWith (trimEnd (?ls1 ! (k - 1))) '',''
          then ?ls1[k - 1 := replace trailingCommaPattern (?ls1 ! (k - 1)) ''$1'']
          else ?ls1)
       else ?ls1), True)"
    using f unfolding removePackageFromSection_def Let_def by simp
  have prev: "0 < k \<Longrightarrow> ?ls1 ! (k - 1) = ?ls ! (k - 1)"
    using k by (simp add: nth_append)
  {
    assume "endsWith (trimEnd (?ls ! k)) '',''"
    then show "removePackageFromSection content sec pkg = (joinLines ?ls1, True)"
      using res by simp
  next
    assume h: "\<not> endsWith (trimEnd (?ls ! k)) '','' \<and> 0 < k
          \<and> endsWith (trimEnd (?ls ! (k - 1))) '',''"
    then have kpos: "0 < k" by simp
    obtain a w where aw: "?ls ! (k - 1) = a @ '','' @ w" "\<forall>c \<in> set w. isWhiteSpace c"
      "replace trailingCommaPattern (?ls ! (k - 1)) ''$1'' = a @ w"
      using strip_trailing_comma h by blast
    have tk: "take k ?ls = take (k - 1) ?ls @ [?ls ! (k - 1)]"
      using k kpos by (metis Suc_pred' less_imp_diff_less take_Suc_conv_app_nth)
    have "?ls1[k - 1 := a @ w] = take (k - 1) ?ls @ [a @ w] @ drop (Suc k) ?ls"
      unfolding tk using k kpos by (simp add: list_update_append)
    then have "removePackageFromSection content sec pkg
        = (joinLines (take (k - 1) ?ls @ [a @ w] @ drop (Suc k) ?ls), True)"
      using res h prev[OF kpos] aw(3) by simp
    then show "\<exists>a w. ?ls ! (k - 1) = a @ '','' @ w \<and> (\<forall>c \<in> set w. isWhiteSpace c)
             \<and> removePackageFromSection content sec pkg
               = (joinLines (take (k - 1) ?ls @ [a @ w] @ drop (Suc k) ?ls), True)"
      using aw by blast
  next
    assume h: "\<not> endsWith (trimEnd (?ls ! k)) '',''
            \<and> \<not> (0 < k \<and> endsWith (trimEnd (?ls ! (k - 1))) '','')"
    show "removePackageFromSection content sec pkg = (joinLines ?ls1, True)"
    proof (cases "0 < k")
      case True
      then show ?thesis using res h prev[OF True] by simp
    next
      case False
      then show ?thesis using res by simp
    qed
  }
qed

theorem removePackage_comma_repair_witness:
  \<open>isPackageLine Dependencies ''axios'' (splitLines manifest_two_entries) 5
   \<and> \<not> endsWith (trimEnd (splitLines manifest_two_entries ! 5)) '',''
   \<and> endsWith (trimEnd (splitLines manifest_two_entries ! 4)) '',''
   \<and> (\<exists>a w. splitLines manifest_two_entries ! 4 = a @ '','' @ w
          \<and> (\<forall>c \<in> set w. isWhiteSpace c)
          \<and> removePackageFromSection manifest_two_entries Dependencies ''axios''
            = (joinLines (take 4 (splitLines manifest_two_entries) @ [a @ w]
                          @ drop 6 (splitLines manifest_two_entries)), True))
   \<and> removePackageFromSection manifest_two_entries Dependencies ''axios''
     = (joinLines
          [''{'',
           ''  "name": "demo",'',
           ''  "version": "1.0.0",'',
           ''  "dependencies": {'',
           ''    "lodash": "^4.17.0"'',
           ''  }'',
           ''}''], True)
   \<and> isPackageLine Dependencies ''lodash'' (splitLines manifest_two_entries) 4
   \<and> removePackageFromSection manifest_two_entries Dependencies ''lodash''
     = (joinLines
          [''{'',
           ''  "name": "demo",'',
           ''  "version": "1.0.0",'',
           ''  "dependencies": {'',
           ''    "axios": "^0.21.0"'',
           ''  }'',
           ''}''], True)
   \<and> \<not> (\<exists>k. isPackageLine Dependencies ''react'' (splitLines manifest_two_entries) k)
   \<and> removePackageFromSection manifest_two_entries Dependencies ''react''
     = (manifest_two_entries, False)\<close>
proof -
  let ?ls = "splitLines manifest_two_entries"
  have f1: "findPackageLine Dependencies ''axios'' ?ls 0 False 0 = Some (5, False)"
    by code_simp
  have f2: "findPackageLine Dependencies ''lodash'' ?ls 0 False 0 = Some (4, True)"
    by code_simp
  have f3: "findPackageLine Dependencies ''react'' ?ls 0 False 0 = None"
    by code_simp
  have p1: "isPackageLine Dependencies ''axios'' ?ls 5"
    using f1 findPackageLine_iff[of Dependencies "''axios''" ?ls 5 False] by simp
  have p2: "isPackageLine Dependencies ''lodash'' ?ls 4"
    using f2 findPackageLine_iff[of Dependencies "''lodash''" ?ls 4 True] by simp
  have p3: "\<not> (\<exists>k. isPackageLine Dependencies ''react'' ?ls k)"
    using f3 findPackageLine_iff[of Dependencies "''react''" ?ls] by auto
  have l5: "\<not> endsWith (trimEnd (?ls ! 5)) '',''"
    by code_simp
  have l4: "endsWith (trimEnd (?ls ! 4)) '',''"
    by code_simp
  have j2: \<open>joinLines (take 4 ?ls @ drop 5 ?ls) = joinLines
          [''{'',
           ''  "name": "demo",'',
           ''  "version": "1.0.0",'',
           ''  "dependencies": {'',
           ''    "axios": "^0.21.0"'',
           ''  }'',
           ''}'']\<close>
    by code_simp
  have e1: \<open>removePackageFromSection manifest_two_entries Dependencies ''axios''
     = (joinLines
          [''{'',
           ''  "name": "demo",'',
           ''  "version": "1.0.0",'',
           ''  "dependencies": {'',
           ''    "lodash": "^4.17.0"'',
           ''  }'',
           ''}''], True)\<close>
    by code_simp
  note t1 = removePackage_comma_repair[of Dependencies "''axios''" manifest_two_entries]
  note t2 = removePackage_comma_repair[of Dependencies "''lodash''" manifest_two_entries]
  note t3 = removePackage_comma_repair[of Dependencies "''react''" manifest_two_entries]
  have r1: "\<exists>a w. ?ls ! 4 = a @ '','' @ w
          \<and> (\<forall>c \<in> set w. isWhiteSpace c)
          \<and> removePackageFromSection manifest_two_entries Dependencies ''axios''
            = (joinLines (take 4 ?ls @ [a @ w] @ drop 6 ?ls), True)"
    using t1[THEN conjunct2, rule_format, OF p1, THEN conjunct2, THEN conjunct1] l5 l4
    by simp
  have r2: "removePackageFromSection manifest_two_entries Dependencies ''lodash''
            = (joinLines (take 4 ?ls @ drop 5 ?ls), True)"
    using t2[THEN conjunct2, rule_format, OF p2, THEN conjunct1] l4
    by simp
  have r3: "removePackageFromSection manifest_two_entries Dependencies ''react''
            = (manifest_two_entries, False)"
    using t3[THEN conjunct1] p3 by simp
  show ?thesis
    using p1 l5 l4 r1 e1 p2 r2[unfolded j2] p3 r3 by simp
qed

section \<open>updateEngines\<close>

lemma updateEngines_without_identity:
  assumes "\<not> test enginesRegex content" "\<not> test versionPattern content"
    "\<not> test namePattern content"
  shows "updateEngines content engines = (content, length (enginesObj engines))"
  using assms unfolding updateEngines_def test_def Let_def
  by (auto split: option.splits)

text \<open>
  Claim C2 says that \<open>updateEngines\<close>, on a text with no engines block, no version field
  and no name field, returns the text unchanged and reports 0 keys updated. The text is
  returned unchanged, but the count is not 0: the keys are counted while the new block is
  built, before an insertion point is looked for, and the count is returned as it is when
  none is found. On the manifest below, with the one key \<open>node\<close>, the code reports 1.
\<close>

theorem updateEngines_counts_without_insertion:
  "\<not> test enginesRegex manifest_no_identity \<and> \<not> test versionPattern manifest_no_identity
   \<and> \<not> test namePattern manifest_no_identity
   \<and> updateEngines manifest_no_identity [(node, Some ''>=18.0.0'')] = (manifest_no_identity, 1)"
  by code_simp

text \<open>
  The scenario of the specification: with no engines block and a version field, the new block
  is inserted right after the version field, and the rest of the text is as before.
\<close>

lemma updateEngines_after_version:
  \<open>updateEngines manifest_two_entries [(node, Some ''>=18.0.0'')]
     = (joinLines
          [''{'',
           ''  "name": "demo",'',
           ''  "version": "1.0.0",'',
           ''  "engines": {'',
           ''    "node": ">=18.0.0"'',
           ''  },'',
           ''  "dependencies": {'',
           ''    "lodash": "^4.17.0",'',
           ''    "axios": "^0.21.0"'',
           ''  }'',
           ''}''], 1)\<close>
  by code_simp

section \<open>applySurgicalFixes\<close>

lemma pathJoin_distinct: "pathJoin dir ''package.json.bak'' \<noteq> pathJoin dir ''package.json''"
  by (simp add: pathJoin_def)

text \<open>
  Claim C8, as stated, fails: a manifest that can be read does not make the backup file
  writable. When the write of the backup is refused, the call stops there with the error of
  that write, and there is no backup file.
\<close>

theorem applySurgicalFixes_backup_refused_counterexample:
  "files fs_backup_refused ''/proj/package.json'' = Some (asciiEncode manifest_two_entries)
   \<and> files (fst (applySurgicalFixes fs_backup_refused ''/proj'' [] None None))
        ''/proj/package.json.bak'' = None
   \<and> snd (applySurgicalFixes fs_backup_refused ''/proj'' [] None None)
       = Inl (EACCES ''/proj/package.json.bak'')"
  by code_simp

text \<open>
  Claim C8, amended: in every call of \<open>applySurgicalFixes\<close> that can read the manifest,
  either the write of the backup file is refused, and then the call fails with no file
  changed; or the backup file is written with the text read, encoded again, which is exactly
  the bytes on disk when these are the encoding of the decoded text (the manifest is valid
  UTF-8), and that write is complete before the manifest is overwritten: the log of the call
  is the read, then the write of the backup, then at most the write of the manifest, and a
  call that fails after the backup leaves the manifest as it was.
\<close>

theorem applySurgicalFixes_backup_first:
  assumes "files fs (pathJoin dir ''package.json'') = Some original"
  shows "case applySurgicalFixes fs dir changes removals engs of
           (fs', res) \<Rightarrow>
             if pathJoin dir ''package.json.bak'' \<in> unwritable fs
             then files fs' = files fs \<and> res = Inl (EACCES (pathJoin dir ''package.json.bak''))
             else files fs' (pathJoin dir ''package.json.bak'')
                    = Some (encodeUtf8 fs (decodeUtf8 fs original))
                  \<and> (encodeUtf8 fs (decodeUtf8 fs original) = original \<longrightarrow>
                       files fs' (pathJoin dir ''package.json.bak'') = Some original)
                  \<and> ((\<exists>e. res = Inl e)
                        \<and> files fs' (pathJoin dir ''package.json'') = Some original
                        \<and> oplog fs' = oplog fs @ [ReadFile (pathJoin dir ''package.json''),
                                                  WriteFile (pathJoin dir ''package.json.bak'')
                                                    (encodeUtf8 fs (decodeUtf8 fs original))]
                      \<or> (\<exists>r new. res = Inr r
                        \<and> backupPath r = pathJoin dir ''package.json.bak''
                        \<and> oplog fs' = oplog fs @ [ReadFile (pathJoin dir ''package.json''),
                                                  WriteFile (pathJoin dir ''package.json.bak'')
                                                    (encodeUtf8 fs (decodeUtf8 fs original)),
                                                  WriteFile (pathJoin dir ''package.json'') new]))"
  using assms pathJoin_distinct[of dir]
  unfolding applySurgicalFixes_def readFile_def writeFile_def Let_def
  by (auto split: prod.splits)

theorem applySurgicalFixes_backup_first_witness:
  \<open>files fs_project (pathJoin ''/proj'' ''package.json'') = Some (asciiEncode manifest_two_entries)
   \<and> pathJoin ''/proj'' ''package.json.bak'' \<notin> unwritable fs_project
   \<and> encodeUtf8 fs_project (decodeUtf8 fs_project (asciiEncode manifest_two_entries))
       = asciiEncode manifest_two_entries
   \<and> files (fst (applySurgicalFixes fs_project ''/proj''
         [\<lparr>package = ''lodash'', from_version = ''^4.17.0'', to_version = ''^4.17.21'',
           dtype = dependency\<rparr>]
         (Some [\<lparr>rm_package = ''axios'', rm_reason = ''deprecated'', rm_type = dependency\<rparr>])
         None)) (pathJoin ''/proj'' ''package.json.bak'') = Some (asciiEncode manifest_two_entries)
   \<and> oplog (fst (applySurgicalFixes fs_project ''/proj''
         [\<lparr>package = ''lodash'', from_version = ''^4.17.0'', to_version = ''^4.17.21'',
           dtype = dependency\<rparr>]
         (Some [\<lparr>rm_package = ''axios'', rm_reason = ''deprecated'', rm_type = dependency\<rparr>])
         None))
      = [ReadFile ''/proj/package.json'',
         WriteFile ''/proj/package.json.bak'' (asciiEncode manifest_two_entries),
         WriteFile ''/proj/package.json''
           (asciiEncode (joinLines
             [''{'',
              ''  "name": "demo",'',
              ''  "version": "1.0.0",'',
              ''  "dependencies": {'',
              ''    "lodash": "^4.17.21"'',
              ''  }'',
              ''}'']))]
   \<and> files fs_backup_refused (pathJoin ''/proj'' ''package.json'')
       = Some (asciiEncode manifest_two_entries)
   \<and> pathJoin ''/proj'' ''package.json.bak'' \<in> unwritable fs_backup_refused
   \<and> files (fst (applySurgicalFixes fs_backup_refused ''/proj'' [] None None))
       = files fs_backup_refused\<close>
proof -
  have h: "files fs_project (pathJoin ''/proj'' ''package.json'') = Some (asciiEncode manifest_two_entries)"
    by code_simp
  have w: "pathJoin ''/proj'' ''package.json.bak'' \<notin> unwritable fs_project"
    by (simp add: fs_project_def)
  have v: "encodeUtf8 fs_project (decodeUtf8 fs_project (asciiEncode manifest_two_entries))
       = asciiEncode manifest_two_entries"
    by code_simp
  have l: \<open>oplog (fst (applySurgicalFixes fs_project ''/proj''
         [\<lparr>package = ''lodash'', from_version = ''^4.17.0'', to_version = ''^4.17.21'',
           dtype = dependency\<rparr>]
         (Some [\<lparr>rm_package = ''axios'', rm_reason = ''deprecated'', rm_type = dependency\<rparr>])
         None))
      = [ReadFile ''/proj/package.json'',
         WriteFile ''/proj/package.json.bak'' (asciiEncode manifest_two_entries),
         WriteFile ''/proj/package.json''
           (asciiEncode (joinLines
             [''{'',
              ''  "name": "demo",'',
              ''  "version": "1.0.0",'',
              ''  "dependencies": {'',
              ''    "lodash": "^4.17.21"'',
              ''  }'',
              ''}'']))]\<close>
    by code_simp
  have b: \<open>files (fst (applySurgicalFixes fs_project ''/proj''
         [\<lparr>package = ''lodash'', from_version = ''^4.17.0'', to_version = ''^4.17.21'',
           dtype = dependency\<rparr>]
         (Some [\<lparr>rm_package = ''axios'', rm_reason = ''deprecated'', rm_type = dependency\<rparr>])
         None)) (pathJoin ''/proj'' ''package.json.bak'') = Some (asciiEncode manifest_two_entries)\<close>
    using applySurgicalFixes_backup_first[OF h, of
        \<open>[\<lparr>package = ''lodash'', from_version = ''^4.17.0'', to_version = ''^4.17.21'',
           dtype = dependency\<rparr>]\<close>
        \<open>Some [\<lparr>rm_package = ''axios'', rm_reason = ''deprecated'', rm_type = dependency\<rparr>]\<close>
        None] w v
    by (simp split: prod.splits)
  have h2: "files fs_backup_refused (pathJoin ''/proj'' ''package.json'')
       = Some (asciiEncode manifest_two_entries)"
    by code_simp
  have w2: "pathJoin ''/proj'' ''package.json.bak'' \<in> unwritable fs_backup_refused"
    by (simp add: fs_backup_refused_def pathJoin_def)
  have b2: "files (fst (applySurgicalFixes fs_backup_refused ''/proj'' [] None None))
       = files fs_backup_refused"
    using applySurgicalFixes_backup_first[OF h2, of "[]" None None] w2
    by (simp split: prod.splits)
  show ?thesis using h w v l b h2 w2 b2 by simp
qed

text \<open>
  Why the amended claim speaks of the text read, encoded again: the backup is written from
  the decoded string, not from the bytes of the file. Where decoding and encoding do not give
  back the bytes read (a manifest that is not valid UTF-8), the backup differs from the file.
\<close>

lemma applySurgicalFixes_backup_reencoded:
  assumes "files fs (pathJoin dir ''package.json'') = Some original"
    and "pathJoin dir ''package.json.bak'' \<notin> unwritable fs"
    and "encodeUtf8 fs (decodeUtf8 fs original) \<noteq> original"
  shows "files (fst (applySurgicalFixes fs dir changes removals engs))
           (pathJoin dir ''package.json.bak'') \<noteq> Some original"
  using assms pathJoin_distinct[of dir]
  unfolding applySurgicalFixes_def readFile_def writeFile_def Let_def
  by (auto split: prod.splits)

text \<open>
  Claim C3 says that the text produced by \<open>applySurgicalFixes\<close> from a text that is valid
  JSON is valid JSON again. The comma repair of \<open>removePackageFromSection\<close> looks at the
  one line before the removed line only: when a blank line stands between the last entry and
  the entry before it, the comma of that entry stays, and the text no longer parses.
\<close>

theorem patchText_blank_line_breaks_json:
  \<open>parsesAsObject manifest_blank_line
   \<and> patchText manifest_blank_line []
        (Some [\<lparr>rm_package = ''b'', rm_reason = ''deprecated'', rm_type = dependency\<rparr>]) None
       = (joinLines
           [''{'',
            ''  "dependencies": {'',
            ''    "a": "1.0.0",'',
            '''',
            ''  }'',
            ''}''], 0, 1, 0)
   \<and> files (fst (applySurgicalFixes fs_blank_line ''/proj'' []
                   (Some [\<lparr>rm_package = ''b'', rm_reason = ''deprecated'',
                            rm_type = dependency\<rparr>]) None))
        ''/proj/package.json''
       = Some (asciiEncode (joinLines
           [''{'',
            ''  "dependencies": {'',
            ''    "a": "1.0.0",'',
            '''',
            ''  }'',
            ''}'']))
   \<and> JSON_parse (joinLines
           [''{'',
            ''  "dependencies": {'',
            ''    "a": "1.0.0",'',
            '''',
            ''  }'',
            ''}'']) = Inl SyntaxError\<close>
  by code_simp

section \<open>Recomputing the Change list after a patch\<close>

text \<open>
  Claim C1 says that the Change list recomputed after the patch is empty. The callers of
  \<open>getChanges\<close> rely on it: an empty list is reported as a manifest that is already up to
  date. But \<open>getChanges\<close> compares the declared string with the raw proposed string, and
  the patch writes the formatted one. After \<open>lodash\<close> is patched from \<open>^4.17.0\<close> to
  \<open>^4.17.21\<close> for the proposed \<open>4.17.21\<close>, the declared \<open>^4.17.21\<close> still differs
  from the raw \<open>4.17.21\<close>, and the recomputed list holds a Change of \<open>lodash\<close> from
  \<open>^4.17.21\<close> to \<open>^4.17.21\<close>.
\<close>

theorem recompute_after_apply_not_empty:
  "computeChanges manifest_two_entries solution_lodash_raw
     = Some [\<lparr>package = ''lodash'', from_version = Str ''^4.17.0'', to_version = ''^4.17.21'',
              dtype = dependency\<rparr>]
   \<and> patchText manifest_two_entries
         [\<lparr>package = ''lodash'', from_version = ''^4.17.0'', to_version = ''^4.17.21'',
           dtype = dependency\<rparr>] None None
       = (manifest_two_entries_patched, 1, 0, 0)
   \<and> computeChanges manifest_two_entries_patched solution_lodash_raw
       = Some [\<lparr>package = ''lodash'', from_version = Str ''^4.17.21'', to_version = ''^4.17.21'',
                dtype = dependency\<rparr>]
   \<and> recomputeAfterApply manifest_two_entries solution_lodash_raw
       = Some [\<lparr>package = ''lodash'', from_version = Str ''^4.17.21'', to_version = ''^4.17.21'',
                dtype = dependency\<rparr>]"
  by code_simp

text \<open>
  Where the proposed version is formatted already, the declared string equals the raw
  proposed string after the patch, and the recomputed list is empty.
\<close>

lemma recompute_after_apply_formatted:
  "recomputeAfterApply manifest_two_entries solution_lodash_formatted = Some []"
  by code_simp

end
